theory Spec2Isabelle
  imports Complex_Main "HOL-Library.AList"
begin

section \<open>Values, dictionaries and errors\<close>

text \<open>
  The rows and records of the evaluation library are Python dictionaries from column
  names to scalar values. A value is a string or a number; Python's \<open>float\<close> and
  \<open>int\<close> are both modelled as real numbers (\<open>NumV\<close>), so rounding of
  floating-point arithmetic is not part of the model.

  A dictionary keeps its keys in insertion order. It is modelled as an association list
  with pairwise distinct keys; \<open>map_of\<close> is the lookup \<open>d[k]\<close> and
  \<open>AList.update k v d\<close> is the assignment \<open>d[k] = v\<close>: it replaces the
  value in place when the key is present and appends the pair at the end otherwise.
\<close>

datatype pyval = StrV string | NumV real

type_synonym dict = "(string \<times> pyval) list"

datatype error =
    AssertionError
  | KeyError pyval
  | TypeError
  | ZeroDivisionError
  | EvalAlgorithmClientError string
  | EvalAlgorithmInternalError string
  | MissingKey string string

text \<open>Python's built-in \<open>sum\<close>: a left fold of \<open>+\<close> that starts at 0.\<close>

definition py_sum :: "real list \<Rightarrow> real" where
  "py_sum xs = foldl (+) 0 xs"

text \<open>\<open>EvalScore\<close> (fmeval.eval_algorithms): a named score.\<close>

record EvalScore =
  name :: string
  val :: real

section \<open>Mean of the score deltas\<close>

text \<open>
  \<open>generate_mean_delta_score\<close> (eval_algorithms/util.py): the sum of the absolute
  differences divided by the length of the list. Dividing by \<open>len([]) = 0\<close>
  raises \<open>ZeroDivisionError\<close>.
\<close>

definition generate_mean_delta_score :: "EvalScore \<Rightarrow> EvalScore list \<Rightarrow> error + real" where
  "generate_mean_delta_score original_score perturbed_input_scores =
     (let total = py_sum (map (\<lambda>reference_score. \<bar>val original_score - val reference_score\<bar>)
                           perturbed_input_scores);
          n = length perturbed_input_scores
      in if n = 0 then Inl ZeroDivisionError else Inr (total / real n))"

section \<open>Writing the records: \<open>save_dataset\<close>\<close>

subsection \<open>The output path\<close>

text \<open>
  \<open>save_dataset\<close> builds the path of the output file from the supplied path with
  \<open>os.path.dirname\<close>, \<open>os.path.basename\<close> and \<open>os.path.splitext\<close>
  (posixpath). These are the library's definitions, on strings as character lists:
  \<open>rfind\<close> is the index of the last occurrence, or \<open>-1\<close>.
\<close>

definition rfind :: "string \<Rightarrow> char \<Rightarrow> int" where
  "rfind p c =
     (if c \<in> set p then int (length p) - 1 - int (length (takeWhile (\<lambda>x. x \<noteq> c) (rev p)))
      else - 1)"

definition rstrip :: "char \<Rightarrow> string \<Rightarrow> string" where
  "rstrip c p = rev (dropWhile (\<lambda>x. x = c) (rev p))"

definition basename :: "string \<Rightarrow> string" where
  "basename p = (let i = nat (rfind p CHR ''/'' + 1) in drop i p)"

definition dirname :: "string \<Rightarrow> string" where
  "dirname p =
     (let i = nat (rfind p CHR ''/'' + 1);
          head = take i p
      in if head \<noteq> [] \<and> head \<noteq> replicate (length head) CHR ''/''
         then rstrip CHR ''/'' head else head)"

text \<open>
  The loop of \<open>splitext\<close> that skips the leading dots of the file name: it answers
  whether some character before the last dot is not a dot.
\<close>

function has_stem :: "string \<Rightarrow> nat \<Rightarrow> nat \<Rightarrow> bool" where
  "has_stem p filenameIndex dotIndex =
     (if filenameIndex < dotIndex
      then (if take 1 (drop filenameIndex p) \<noteq> ''.'' then True
            else has_stem p (Suc filenameIndex) dotIndex)
      else False)"
  by pat_completeness auto
termination
  by (relation "measure (\<lambda>(p, filenameIndex, dotIndex). dotIndex - filenameIndex)") auto

definition splitext :: "string \<Rightarrow> string \<times> string" where
  "splitext p =
     (let sepIndex = rfind p CHR ''/'';
          dotIndex = rfind p CHR ''.''
      in if dotIndex > sepIndex \<and> has_stem p (nat (sepIndex + 1)) (nat dotIndex)
         then (take (nat dotIndex) p, drop (nat dotIndex) p)
         else (p, []))"

text \<open>
  Lines 322 to 325 of \<open>save_dataset\<close>: the directory and the file name without its
  extension are put together again by an f-string, with a slash between them.
\<close>

definition full_path :: "string \<Rightarrow> string" where
  "full_path path =
     (let path_to_parent_dir = dirname path;
          file_name = basename path;
          file_name_without_extension = fst (splitext file_name)
      in path_to_parent_dir @ ''/'' @ file_name_without_extension @ ''.jsonl'')"

subsection \<open>The batched write loop\<close>

text \<open>Python's \<open>sep.join(xs)\<close>.\<close>

fun join :: "string \<Rightarrow> string list \<Rightarrow> string" where
  "join sep [] = []"
| "join sep [x] = x"
| "join sep (x # y # ys) = x @ sep @ join sep (y # ys)"

definition newline :: string where
  "newline = [CHR 0x0A]"

text \<open>
  Lines 326 to 335 of \<open>save_dataset\<close>. The state of the loop is the contents written
  to the file so far (\<open>fh\<close>) and the pending batch (\<open>records\<close>); the argument
  \<open>batch_size\<close> stands for the constant \<open>EVAL_OUTPUT_RECORDS_BATCH_SIZE\<close>
  of fmeval.constants, and the rows are given as the strings \<open>str(record)\<close>. A full
  batch is written followed by a newline; the rest, if there is one, is written after the
  loop without one.
\<close>

fun write_batches :: "nat \<Rightarrow> string list \<Rightarrow> string \<Rightarrow> string list \<Rightarrow> string \<times> string list" where
  "write_batches batch_size [] fh records = (fh, records)"
| "write_batches batch_size (record # rest) fh records =
     (let records' = records @ [record]
      in if length records' = batch_size
         then write_batches batch_size rest (fh @ join newline records' @ newline) []
         else write_batches batch_size rest fh records')"

definition write_records :: "nat \<Rightarrow> string list \<Rightarrow> string" where
  "write_records batch_size rows =
     (case write_batches batch_size rows [] [] of
        (fh, records) \<Rightarrow> if records \<noteq> [] then fh @ join newline records else fh)"

text \<open>What writing the rows one line at a time gives: every record followed by a newline.\<close>

definition write_lines :: "string list \<Rightarrow> string" where
  "write_lines rows = concat (map (\<lambda>r. r @ newline) rows)"

section \<open>The output record: \<open>EvalOutputRecord\<close>\<close>

text \<open>
  The allow-list of non-score columns, \<open>DATASET_COLUMNS\<close>, is a constant of
  fmeval.constants, which is not among the sources: an ordered dictionary keyed by the
  column names. The functions below take the list of its keys, in its order, as the
  argument \<open>cols\<close>.
\<close>

record EvalOutputRecord =
  scores :: "EvalScore list"
  dataset_columns :: dict

text \<open>
  \<open>__post_init__\<close>: every key of \<open>dataset_columns\<close> must belong to the
  allow-list; \<open>util.assert_condition\<close> raises the library's internal error for
  the first one that does not.
\<close>

fun post_init :: "string list \<Rightarrow> string list \<Rightarrow> error option" where
  "post_init cols [] = None"
| "post_init cols (col # rest) =
     (if col \<in> set cols then post_init cols rest
      else Some (EvalAlgorithmInternalError
        (''Attempting to initialize an EvalOutputRecord with invalid non-score column ''
          @ col @ ''.'')))"

definition new_EvalOutputRecord :: "string list \<Rightarrow> EvalScore list \<Rightarrow> dict \<Rightarrow> error + EvalOutputRecord" where
  "new_EvalOutputRecord cols scs dc =
     (case post_init cols (map fst dc) of
        Some e \<Rightarrow> Inl e
      | None \<Rightarrow> Inr \<lparr>scores = scs, dataset_columns = dc\<rparr>)"

text \<open>
  The loop of \<open>from_row\<close> over \<open>row.items()\<close>, with the two accumulators
  \<open>dataset_columns\<close> and \<open>scores\<close>. The assertion on a score value fails for a
  value that is neither a float nor an int.
\<close>

fun from_row_items :: "string list \<Rightarrow> string list \<Rightarrow> dict \<Rightarrow> dict \<Rightarrow> EvalScore list
    \<Rightarrow> error + (dict \<times> EvalScore list)" where
  "from_row_items cols score_names [] dataset_cols scs = Inr (dataset_cols, scs)"
| "from_row_items cols score_names ((column_name, v) # rest) dataset_cols scs =
     (if column_name \<notin> set score_names
      then (if column_name \<in> set cols
            then from_row_items cols score_names rest (AList.update column_name v dataset_cols) scs
            else from_row_items cols score_names rest dataset_cols scs)
      else (case v of
              NumV x \<Rightarrow>
                from_row_items cols score_names rest dataset_cols (scs @ [\<lparr>name = column_name, val = x\<rparr>])
            | StrV s \<Rightarrow> Inl AssertionError))"

definition from_row :: "string list \<Rightarrow> dict \<Rightarrow> string list \<Rightarrow> error + EvalOutputRecord" where
  "from_row cols row score_names =
     (case from_row_items cols score_names row [] [] of
        Inl e \<Rightarrow> Inl e
      | Inr (dataset_cols, scs) \<Rightarrow> new_EvalOutputRecord cols scs dataset_cols)"

text \<open>
  The JSON object of a record. A value of the object is a scalar of the row or, under
  \<open>scores\<close>, the list of the scores' \<open>__dict__\<close>s. \<open>OrderedDict\<close> applied
  to a sequence of pairs inserts them one after the other, as a dictionary comprehension
  does; \<open>column_items\<close> is the
  generator expression of \<open>_to_dict\<close>, the items of the allow-listed columns that
  the record has, in the order of the allow-list.
\<close>

datatype json = JVal pyval | JScores "dict list"

definition OrderedDict :: "('k \<times> 'v) list \<Rightarrow> ('k \<times> 'v) list" where
  "OrderedDict pairs = foldl (\<lambda>d (k, v). AList.update k v d) [] pairs"

definition score_dict :: "EvalScore \<Rightarrow> dict" where
  "score_dict eval_score = [(''name'', StrV (name eval_score)), (''value'', NumV (val eval_score))]"

definition column_items :: "dict \<Rightarrow> string list \<Rightarrow> (string \<times> json) list" where
  "column_items dc cols =
     concat (map (\<lambda>col_name. case map_of dc col_name of
                                  Some v \<Rightarrow> [(col_name, JVal v)]
                                | None \<Rightarrow> [])
                 cols)"

definition to_dict :: "string list \<Rightarrow> EvalOutputRecord \<Rightarrow> (string \<times> json) list" where
  "to_dict cols r =
     (let json_obj = OrderedDict (column_items (dataset_columns r) cols)
      in AList.update ''scores'' (JScores (map score_dict (scores r))) json_obj)"

text \<open>
  The score that \<open>from_row\<close> makes of a row item with a numeric value; it is used
  to state the result of the loop.
\<close>

definition item_score :: "string \<times> pyval \<Rightarrow> EvalScore" where
  "item_score kv = \<lparr>name = fst kv, val = (case snd kv of NumV x \<Rightarrow> x | StrV s \<Rightarrow> 0)\<rparr>"

section \<open>Transforms: \<open>WER\<close> and \<open>BertScoreDissimilarity\<close>\<close>

subsection \<open>The parts of the transform base that the sources do not include\<close>

text \<open>
  Python's \<open>str\<close> of a non-negative integer, as the f-string of \<open>WER.__init__\<close>
  formats the two lengths: its decimal digits.
\<close>

definition digit_char :: "nat \<Rightarrow> char" where
  "digit_char d = ''0123456789'' ! d"

function str_nat :: "nat \<Rightarrow> string" where
  "str_nat n = (if n < 10 then [digit_char n] else str_nat (n div 10) @ [digit_char (n mod 10)])"
  by pat_completeness auto
termination
  by (relation "measure (\<lambda>n. n)") auto

declare str_nat.simps [simp del]

text \<open>
  What it means for a string to be the decimal numeral of a number: its characters are
  digits, it has no leading zero unless it is \<open>0\<close> itself, and its value, read
  from the left in base ten, is the number. It is used to state what the message of
  \<open>WER.__init__\<close> says.
\<close>

definition digit_value :: "char \<Rightarrow> nat" where
  "digit_value c = of_char c - 48"

definition decimal_value :: "string \<Rightarrow> nat" where
  "decimal_value s = foldl (\<lambda>acc c. 10 * acc + digit_value c) 0 s"

definition is_decimal :: "string \<Rightarrow> nat \<Rightarrow> bool" where
  "is_decimal s n \<longleftrightarrow>
     s \<noteq> [] \<and> set s \<subseteq> set ''0123456789'' \<and> (hd s = CHR ''0'' \<longrightarrow> s = ''0'')
     \<and> decimal_value s = n"

text \<open>
  Modelled from the spec: \<open>fmeval.util.require\<close> is not among the sources. Section 7
  of the specification: invalid construction-time configuration raises the user-facing
  error (\<open>ConfigError\<close> there, \<open>EvalAlgorithmClientError\<close> in the library's
  tests) immediately, with the message given.
\<close>

definition require :: "bool \<Rightarrow> string \<Rightarrow> error + unit" where
  "require expression msg = (if expression then Inr () else Inl (EvalAlgorithmClientError msg))"

text \<open>
  Modelled from the spec: \<open>Transform.register_input_output_keys\<close>
  (fmeval.transforms.transform) is not among the sources. Section 3: the declared output
  keys must be unique within one registration; section 4.1: construction fails with a
  configuration error on colliding keys unless duplicates are explicitly allowed. The
  specification does not give the text of the message.
\<close>

record Transform =
  input_keys :: "string list"
  output_keys :: "string list"

definition register_input_output_keys :: "string list \<Rightarrow> string list \<Rightarrow> bool \<Rightarrow> error + Transform" where
  "register_input_output_keys in_keys out_keys allow_duplicates =
     (if \<not> distinct out_keys \<or> (\<not> allow_duplicates \<and> \<not> distinct in_keys)
      then Inl (EvalAlgorithmClientError ''duplicate keys'')
      else Inr \<lparr>input_keys = in_keys, output_keys = out_keys\<rparr>)"

text \<open>
  Modelled from the spec: the decorator \<open>validate_call\<close> (fmeval.transforms.util) is
  not among the sources. Section 4.1: before the transform's own code runs, every
  declared input key is checked to be present in the record; the first missing one fails
  the call with \<open>MissingKey\<close>, which names the transform and the key, and the
  record is left as it was.
\<close>

fun validate_call :: "string \<Rightarrow> string list \<Rightarrow> dict \<Rightarrow> error option" where
  "validate_call transform_name [] record = None"
| "validate_call transform_name (k # ks) record =
     (case map_of record k of
        None \<Rightarrow> Some (MissingKey transform_name k)
      | Some v \<Rightarrow> validate_call transform_name ks record)"

text \<open>
  A list comprehension \<open>[record[key] for key in keys]\<close>: the values in the order of
  the keys; a missing key raises \<open>KeyError\<close>.
\<close>

fun values_of :: "dict \<Rightarrow> string list \<Rightarrow> error + pyval list" where
  "values_of record [] = Inr []"
| "values_of record (k # ks) =
     (case map_of record k of
        None \<Rightarrow> Inl (KeyError (StrV k))
      | Some v \<Rightarrow> (case values_of record ks of Inl e \<Rightarrow> Inl e | Inr vs \<Rightarrow> Inr (v # vs)))"

text \<open>The numbers of a list of values; arithmetic on a string raises \<open>TypeError\<close>.\<close>

fun numbers_of :: "pyval list \<Rightarrow> error + real list" where
  "numbers_of [] = Inr []"
| "numbers_of (StrV s # vs) = Inl TypeError"
| "numbers_of (NumV x # vs) = (case numbers_of vs of Inl e \<Rightarrow> Inl e | Inr xs \<Rightarrow> Inr (x # xs))"




subsection \<open>\<open>BertScoreDissimilarity\<close>\<close>




subsection \<open>\<open>WER\<close>\<close>

record WER = Transform +
  prediction_keys :: "string list"
  reference_keys :: "string list"
  output_key :: string

text \<open>
  \<open>WER.__init__\<close>. The metric that \<open>hf_evaluate.load("wer")\<close> returns is an
  external object; its \<open>compute\<close> is an argument of \<open>WER_call\<close> below.
\<close>

definition WER_message :: "nat \<Rightarrow> nat \<Rightarrow> string" where
  "WER_message n_predictions n_references =
     ''prediction_keys and reference_keys should have the same number of elements. ''
     @ ''prediction_keys has '' @ str_nat n_predictions @ '' elements while reference_keys has ''
     @ str_nat n_references @ '' elements.''"

definition WER_init :: "string list \<Rightarrow> string list \<Rightarrow> string \<Rightarrow> error + WER" where
  "WER_init pred_keys ref_keys out_key =
     (case require (length pred_keys = length ref_keys)
             (WER_message (length pred_keys) (length ref_keys)) of
        Inl e \<Rightarrow> Inl e
      | Inr u \<Rightarrow>
          (case register_input_output_keys (pred_keys @ ref_keys) [out_key] True of
             Inl e \<Rightarrow> Inl e
           | Inr t \<Rightarrow> Inr \<lparr>input_keys = input_keys t, output_keys = output_keys t,
                          prediction_keys = pred_keys, reference_keys = ref_keys,
                          output_key = out_key\<rparr>))"

text \<open>
  \<open>WER.__call__\<close>. The result is paired with the log of the calls made to the
  external metric: each entry holds the \<open>predictions\<close> and the \<open>references\<close>
  that one call of \<open>compute\<close> received.
\<close>

definition WER_call :: "(pyval list \<Rightarrow> pyval list \<Rightarrow> pyval) \<Rightarrow> WER \<Rightarrow> dict
    \<Rightarrow> (error + dict) \<times> (pyval list \<times> pyval list) list" where
  "WER_call compute self record =
     (case validate_call ''WER'' (input_keys self) record of
        Some e \<Rightarrow> (Inl e, [])
      | None \<Rightarrow>
          (case values_of record (prediction_keys self) of
             Inl e \<Rightarrow> (Inl e, [])
           | Inr predictions \<Rightarrow>
               (case values_of record (reference_keys self) of
                  Inl e \<Rightarrow> (Inl e, [])
                | Inr references \<Rightarrow>
                    (let wer_metric = compute predictions references
                     in (Inr (AList.update (output_key self) wer_metric record),
                         [(predictions, references)])))))"

section \<open>The determinism check\<close>

text \<open>
  The model runner is an external object whose \<open>predict\<close> may answer differently
  from one call to the next. It is modelled as a state machine: \<open>predict\<close> takes
  the runner's state and the prompt and returns the pair (output, log probability) and the
  next state.

  \<open>verify_rows\<close> is the loop of \<open>verify_model_determinism\<close> over the rows:
  its state is the runner's state and the log of the calls made to \<open>predict\<close>, each
  entry the prompt passed and the output returned. A row without the prompt column raises
  \<open>KeyError\<close>.
\<close>

type_synonym 'm model_runner = "'m \<Rightarrow> pyval \<Rightarrow> (string option \<times> real option) \<times> 'm"

type_synonym call_log = "(pyval \<times> string option) list"

fun verify_rows :: "'m model_runner \<Rightarrow> string \<Rightarrow> dict list \<Rightarrow> 'm \<Rightarrow> call_log
    \<Rightarrow> (error + bool) \<times> 'm \<times> call_log" where
  "verify_rows predict prompt_column_name [] m calls = (Inr True, m, calls)"
| "verify_rows predict prompt_column_name (row # rest) m calls =
     (case map_of row prompt_column_name of
        None \<Rightarrow> (Inl (KeyError (StrV prompt_column_name)), m, calls)
      | Some original_prompt \<Rightarrow>
          (case predict m original_prompt of
             (first, m1) \<Rightarrow>
               (case predict m1 original_prompt of
                  (second, m2) \<Rightarrow>
                    (let original_model_output = fst first;
                         calls' = calls @ [(original_prompt, original_model_output),
                                           (original_prompt, fst second)]
                     in if fst second \<noteq> original_model_output
                        then (Inr False, m2, calls')
                        else verify_rows predict prompt_column_name rest m2 calls'))))"

text \<open>
  \<open>verify_model_determinism\<close>; \<open>num_rows\<close> stands for the constant
  \<open>NUM_ROWS_DETERMINISTIC\<close> of fmeval.constants, and \<open>dataset.limit(n)\<close> keeps
  the first \<open>n\<close> rows.
\<close>

definition verify_model_determinism :: "nat \<Rightarrow> 'm model_runner \<Rightarrow> 'm \<Rightarrow> dict list \<Rightarrow> string
    \<Rightarrow> (error + bool) \<times> 'm \<times> call_log" where
  "verify_model_determinism num_rows predict m dataset prompt_column_name =
     verify_rows predict prompt_column_name (take num_rows dataset) m []"

text \<open>
  The calls that examining the given rows makes when the two outputs for each row are the
  given pairs: two per row, both with the row's prompt.
\<close>

definition calls_for :: "string \<Rightarrow> (dict \<times> string option \<times> string option) list \<Rightarrow> call_log" where
  "calls_for prompt_column_name examined =
     concat (map (\<lambda>(row, o1, o2).
                    [(the (map_of row prompt_column_name), o1),
                     (the (map_of row prompt_column_name), o2)])
                 examined)"

text \<open>
  Asking the model the given prompts one after the other, from a given state: the outputs
  it returns and the state it ends in. It is used to state that the logged outputs are the
  model's own.
\<close>

fun run_calls :: "'m model_runner \<Rightarrow> 'm \<Rightarrow> pyval list \<Rightarrow> string option list \<times> 'm" where
  "run_calls predict m [] = ([], m)"
| "run_calls predict m (prompt # prompts) =
     (case predict m prompt of
        (answer, m1) \<Rightarrow>
          (case run_calls predict m1 prompts of
             (outputs, m') \<Rightarrow> (fst answer # outputs, m')))"

section \<open>Aggregation\<close>

subsection \<open>The dataset engine\<close>

text \<open>
  The dataset engine (Ray Data) is an external library; section 6 of the specification
  lists what the library uses of it. A dataset is modelled as the list of its rows, each
  a dictionary with the same columns:
  \<^item> \<open>columns()\<close> gives the column names, read off the first row;
  \<^item> \<open>mean(col)\<close> gives the arithmetic mean of a column of numbers, and
    \<open>None\<close> for a dataset with no rows;
  \<^item> \<open>unique(col)\<close> gives the distinct values of a column;
  \<^item> \<open>groupby(key).mean(col)\<close> gives a dataset with one row per distinct value of
    \<open>key\<close>, holding that value under \<open>key\<close> and the mean of \<open>col\<close> over
    the rows of the group under \<open>mean(col)\<close>.
  A row that lacks the column fails the operation with \<open>KeyError\<close>, a string where a
  number is needed with \<open>TypeError\<close>.
\<close>

type_synonym dataset = "dict list"

definition ds_columns :: "dataset \<Rightarrow> string list" where
  "ds_columns ds = (case ds of [] \<Rightarrow> [] | row # rest \<Rightarrow> map fst row)"

fun column_values :: "dataset \<Rightarrow> string \<Rightarrow> error + pyval list" where
  "column_values [] col = Inr []"
| "column_values (row # rows) col =
     (case map_of row col of
        None \<Rightarrow> Inl (KeyError (StrV col))
      | Some v \<Rightarrow> (case column_values rows col of Inl e \<Rightarrow> Inl e | Inr vs \<Rightarrow> Inr (v # vs)))"

definition ds_mean :: "dataset \<Rightarrow> string \<Rightarrow> error + real option" where
  "ds_mean ds col =
     (case column_values ds col of
        Inl e \<Rightarrow> Inl e
      | Inr vs \<Rightarrow>
          (case numbers_of vs of
             Inl e \<Rightarrow> Inl e
           | Inr xs \<Rightarrow> Inr (if xs = [] then None else Some (sum_list xs / real (length xs)))))"

definition ds_unique :: "dataset \<Rightarrow> string \<Rightarrow> error + pyval list" where
  "ds_unique ds col =
     (case column_values ds col of Inl e \<Rightarrow> Inl e | Inr vs \<Rightarrow> Inr (remdups vs))"

definition mean_column :: "string \<Rightarrow> string" where
  "mean_column col = ''mean('' @ col @ '')''"

fun group_means :: "dataset \<Rightarrow> string \<Rightarrow> string \<Rightarrow> pyval list \<Rightarrow> error + dataset" where
  "group_means ds key col [] = Inr []"
| "group_means ds key col (k # ks) =
     (case ds_mean (filter (\<lambda>row. map_of row key = Some k) ds) col of
        Inl e \<Rightarrow> Inl e
      | Inr None \<Rightarrow> group_means ds key col ks
      | Inr (Some mean) \<Rightarrow>
          (case group_means ds key col ks of
             Inl e \<Rightarrow> Inl e
           | Inr rows \<Rightarrow> Inr ([(key, k), (mean_column col, NumV mean)] # rows)))"

definition ds_groupby_mean :: "dataset \<Rightarrow> string \<Rightarrow> string \<Rightarrow> error + dataset" where
  "ds_groupby_mean ds key col =
     (case ds_unique ds key of Inl e \<Rightarrow> Inl e | Inr ks \<Rightarrow> group_means ds key col ks)"

subsection \<open>\<open>aggregate_evaluation_scores\<close>\<close>

text \<open>
  Modelled from the spec: the constants \<open>MEAN\<close> and
  \<open>DatasetColumns.CATEGORY.value.name\<close> of fmeval.constants are not among the
  sources. Section 4.4: the only supported method is the mean, and the categories are
  read from the \<open>category\<close> column.
\<close>

definition MEAN :: string where
  "MEAN = ''mean''"

definition CATEGORY :: string where
  "CATEGORY = ''category''"

record CategoryScore =
  cat_name :: pyval
  cat_scores :: "EvalScore list"

definition dataset_aggregation :: "dataset \<Rightarrow> string \<Rightarrow> string \<Rightarrow> error + real" where
  "dataset_aggregation ds score_column_name agg_method =
     (if agg_method = MEAN
      then (case ds_mean ds score_column_name of
              Inl e \<Rightarrow> Inl e
            | Inr None \<Rightarrow> Inl AssertionError
            | Inr (Some aggregate) \<Rightarrow> Inr aggregate)
      else Inl (EvalAlgorithmInternalError
             (''Aggregation method '' @ agg_method @ '' is not supported'')))"

definition category_wise_aggregation :: "dataset \<Rightarrow> string \<Rightarrow> string \<Rightarrow> error + dataset" where
  "category_wise_aggregation ds score_column_name agg_method =
     (if agg_method = MEAN
      then ds_groupby_mean ds CATEGORY score_column_name
      else Inl (EvalAlgorithmInternalError
             (''Aggregation method '' @ agg_method @ '' is not supported'')))"

text \<open>The list comprehension that builds \<open>dataset_scores\<close>.\<close>

fun dataset_scores_of :: "dataset \<Rightarrow> string list \<Rightarrow> string \<Rightarrow> error + EvalScore list" where
  "dataset_scores_of ds [] agg_method = Inr []"
| "dataset_scores_of ds (score_column_name # rest) agg_method =
     (case dataset_aggregation ds score_column_name agg_method of
        Inl e \<Rightarrow> Inl e
      | Inr v \<Rightarrow>
          (case dataset_scores_of ds rest agg_method of
             Inl e \<Rightarrow> Inl e
           | Inr ss \<Rightarrow> Inr (\<lparr>name = score_column_name, val = v\<rparr> # ss)))"

text \<open>
  The inner loop, over the rows of one category-wise aggregate: the score is appended to
  the \<open>scores\<close> of the \<open>CategoryScore\<close> that the dictionary
  \<open>category_scores\<close> holds under the row's category.
\<close>

fun append_category_rows :: "string \<Rightarrow> dataset \<Rightarrow> (pyval \<times> CategoryScore) list
    \<Rightarrow> error + (pyval \<times> CategoryScore) list" where
  "append_category_rows score_column_name [] category_scores = Inr category_scores"
| "append_category_rows score_column_name (row # rows) category_scores =
     (case map_of row CATEGORY of
        None \<Rightarrow> Inl (KeyError (StrV CATEGORY))
      | Some c \<Rightarrow>
          (case map_of category_scores c of
             None \<Rightarrow> Inl (KeyError c)
           | Some cs \<Rightarrow>
               (case map_of row (mean_column score_column_name) of
                  None \<Rightarrow> Inl (KeyError (StrV (mean_column score_column_name)))
                | Some (StrV s) \<Rightarrow> Inl TypeError
                | Some (NumV v) \<Rightarrow>
                    append_category_rows score_column_name rows
                      (AList.update c
                         (cs\<lparr>cat_scores := cat_scores cs @ [\<lparr>name = score_column_name, val = v\<rparr>]\<rparr>)
                         category_scores))))"

text \<open>The outer loop, over the score columns.\<close>

fun append_category_scores :: "dataset \<Rightarrow> string list \<Rightarrow> string \<Rightarrow> (pyval \<times> CategoryScore) list
    \<Rightarrow> error + (pyval \<times> CategoryScore) list" where
  "append_category_scores ds [] agg_method category_scores = Inr category_scores"
| "append_category_scores ds (score_column_name # rest) agg_method category_scores =
     (case category_wise_aggregation ds score_column_name agg_method of
        Inl e \<Rightarrow> Inl e
      | Inr category_aggregate \<Rightarrow>
          (case append_category_rows score_column_name category_aggregate category_scores of
             Inl e \<Rightarrow> Inl e
           | Inr category_scores' \<Rightarrow>
               append_category_scores ds rest agg_method category_scores'))"

definition aggregate_evaluation_scores :: "dataset \<Rightarrow> string list \<Rightarrow> string
    \<Rightarrow> error + (EvalScore list \<times> CategoryScore list option)" where
  "aggregate_evaluation_scores ds score_column_names agg_method =
     (case dataset_scores_of ds score_column_names agg_method of
        Inl e \<Rightarrow> Inl e
      | Inr dataset_scores \<Rightarrow>
          (if CATEGORY \<in> set (ds_columns ds)
           then (case ds_unique ds CATEGORY of
                   Inl e \<Rightarrow> Inl e
                 | Inr names \<Rightarrow>
                     (case append_category_scores ds score_column_names agg_method
                             (OrderedDict (map (\<lambda>c. (c, \<lparr>cat_name = c, cat_scores = []\<rparr>)) names)) of
                        Inl e \<Rightarrow> Inl e
                      | Inr category_scores \<Rightarrow>
                          Inr (dataset_scores,
                               if category_scores \<noteq> [] then Some (map snd category_scores)
                               else None)))
           else Inr (dataset_scores, None)))"

text \<open>
  The arithmetic mean of a column over a list of rows, to state the results: the sum of
  the numbers under the column divided by the number of rows.
\<close>

definition number_at :: "dict \<Rightarrow> string \<Rightarrow> real" where
  "number_at row col = (case map_of row col of Some (NumV x) \<Rightarrow> x | Some (StrV s) \<Rightarrow> 0 | None \<Rightarrow> 0)"

definition column_mean :: "dataset \<Rightarrow> string \<Rightarrow> real" where
  "column_mean rows col = (\<Sum>row \<leftarrow> rows. number_at row col) / real (length rows)"

text \<open>
  The row of a category-wise aggregate for one category, and the score that the inner loop
  makes of it; they are used to state the results of the loops.
\<close>

definition group_row :: "dataset \<Rightarrow> string \<Rightarrow> pyval \<Rightarrow> dict" where
  "group_row ds col k = [(CATEGORY, k), (mean_column col,
       NumV (column_mean (filter (\<lambda>row. map_of row CATEGORY = Some k) ds) col))]"

definition group_score :: "dataset \<Rightarrow> string \<Rightarrow> pyval \<Rightarrow> EvalScore" where
  "group_score ds col k =
     \<lparr>name = col, val = column_mean (filter (\<lambda>row. map_of row CATEGORY = Some k) ds) col\<rparr>"

section \<open>Verified properties\<close>

subsection \<open>The mean of the score deltas\<close>

lemma foldl_plus_start: "foldl (+) (a::real) xs = a + sum_list xs"
  by (induction xs arbitrary: a) simp_all

lemma py_sum_sum_list: "py_sum xs = sum_list xs"
  by (simp add: py_sum_def foldl_plus_start)

text \<open>
  C10. For a non-empty list of perturbed scores the result is the arithmetic mean of the
  absolute differences between the original value and each perturbed value; for the
  empty list the function raises \<open>ZeroDivisionError\<close> and returns nothing.
\<close>

theorem generate_mean_delta_score_mean:
  "(ps \<noteq> [] \<longrightarrow>
      generate_mean_delta_score orig ps =
        Inr ((\<Sum>i<length ps. \<bar>val orig - val (ps ! i)\<bar>) / real (length ps)))
   \<and> generate_mean_delta_score orig [] = Inl ZeroDivisionError"
proof -
  have "sum_list (map (\<lambda>p. \<bar>val orig - val p\<bar>) ps) = (\<Sum>i<length ps. \<bar>val orig - val (ps ! i)\<bar>)"
    by (simp add: sum_list_sum_nth atLeast0LessThan)
  then show ?thesis
    by (simp add: generate_mean_delta_score_def py_sum_sum_list Let_def)
qed

theorem generate_mean_delta_score_mean_witness:
  "[\<lparr>name = ''s'', val = 1\<rparr>, \<lparr>name = ''s'', val = 4\<rparr>] \<noteq> []
   \<and> generate_mean_delta_score \<lparr>name = ''s'', val = 2\<rparr>
        [\<lparr>name = ''s'', val = 1\<rparr>, \<lparr>name = ''s'', val = 4\<rparr>] = Inr (3 / 2)"
  using generate_mean_delta_score_mean
    [of "[\<lparr>name = ''s'', val = 1\<rparr>, \<lparr>name = ''s'', val = 4\<rparr>]" "\<lparr>name = ''s'', val = 2\<rparr>"]
  by (simp add: lessThan_Suc numeral_2_eq_2)

subsection \<open>The write loop of \<open>save_dataset\<close>\<close>

lemma join_newline_lines:
  "rs \<noteq> [] \<Longrightarrow> join newline rs @ newline = write_lines rs"
  by (induction newline rs rule: join.induct) (simp_all add: write_lines_def)

lemma lines_then_join:
  "ys \<noteq> [] \<Longrightarrow> write_lines xs @ join newline ys = join newline (xs @ ys)"
proof (induction xs)
  case Nil
  then show ?case by (simp add: write_lines_def)
next
  case (Cons x xs)
  then obtain z zs where zs: "xs @ ys = z # zs"
    by (cases "xs @ ys") auto
  from Cons have "write_lines (x # xs) @ join newline ys = x @ newline @ join newline (xs @ ys)"
    by (simp add: write_lines_def)
  also have "\<dots> = join newline ((x # xs) @ ys)"
    using zs by simp
  finally show ?case .
qed

lemma write_lines_append: "write_lines (xs @ ys) = write_lines xs @ write_lines ys"
  by (simp add: write_lines_def)

text \<open>
  The loop invariant: with a pending batch shorter than the batch size, the loop writes
  the longest prefix of the pending and remaining records that consists of whole batches,
  one record per line, and leaves the rest pending.
\<close>

lemma write_batches_whole:
  "0 < b \<Longrightarrow> length buf < b \<Longrightarrow>
   write_batches b rs fh buf =
     (fh @ write_lines (take ((length (buf @ rs) div b) * b) (buf @ rs)),
      drop ((length (buf @ rs) div b) * b) (buf @ rs))"
proof (induction rs arbitrary: fh buf)
  case Nil
  then show ?case by (simp add: write_lines_def)
next
  case (Cons r rs)
  show ?case
  proof (cases "length (buf @ [r]) = b")
    case True
    have full: "join newline (buf @ [r]) @ newline = write_lines (buf @ [r])"
      by (rule join_newline_lines) simp
    have step: "write_batches b (r # rs) fh buf = write_batches b rs (fh @ write_lines (buf @ [r])) []"
      using True full by (simp add: Let_def)
    have ih: "write_batches b rs (fh @ write_lines (buf @ [r])) [] =
        ((fh @ write_lines (buf @ [r])) @ write_lines (take ((length rs div b) * b) rs),
         drop ((length rs div b) * b) rs)"
      using Cons.IH [of "[]" "fh @ write_lines (buf @ [r])"] Cons.prems(1) by simp
    have len: "length (buf @ r # rs) = b + length rs"
      using True by simp
    have m: "(length (buf @ r # rs) div b) * b = b + (length rs div b) * b"
    proof -
      have "(b + length rs) div b = Suc (length rs div b)"
        using Cons.prems(1) by simp
      then show ?thesis
        unfolding len by simp
    qed
    have tk: "take (b + (length rs div b) * b) (buf @ r # rs) = (buf @ [r]) @ take ((length rs div b) * b) rs"
      using True by (simp add: take_Cons')
    have dr: "drop (b + (length rs div b) * b) (buf @ r # rs) = drop ((length rs div b) * b) rs"
      using True by (simp add: drop_Cons')
    show ?thesis
      unfolding step ih m tk dr by (simp add: write_lines_def)
  next
    case False
    then have short: "length (buf @ [r]) < b"
      using Cons.prems(2) by simp
    have step: "write_batches b (r # rs) fh buf = write_batches b rs fh (buf @ [r])"
      using False by (simp add: Let_def)
    show ?thesis
      unfolding step using Cons.IH [OF Cons.prems(1) short, of fh] by simp
  qed
qed

text \<open>
  The contents of the file for a positive batch size: the records joined by newlines,
  followed by one more newline exactly when the number of records is a positive multiple
  of the batch size.
\<close>

lemma write_records_contents:
  assumes "0 < b"
  shows "write_records b rs =
           (if rs \<noteq> [] \<and> b dvd length rs then join newline rs @ newline else join newline rs)"
proof -
  let ?m = "(length rs div b) * b"
  have wb: "write_batches b rs [] [] = (write_lines (take ?m rs), drop ?m rs)"
    using write_batches_whole [OF assms, of "[]" rs "[]"] assms by simp
  show ?thesis
  proof (cases "b dvd length rs")
    case True
    then have "?m = length rs" by simp
    then have "write_records b rs = write_lines rs"
      by (simp add: write_records_def wb)
    then show ?thesis
      using True by (cases "rs = []") (simp_all add: join_newline_lines write_lines_def)
  next
    case False
    then have "?m < length rs"
      by (metis div_mult_mod_eq less_add_same_cancel1 mod_greater_zero_iff_not_dvd)
    then have rest: "drop ?m rs \<noteq> []" by simp
    have "write_records b rs = write_lines (take ?m rs) @ join newline (drop ?m rs)"
      using rest by (simp add: write_records_def wb)
    also have "\<dots> = join newline (take ?m rs @ drop ?m rs)"
      by (rule lines_then_join [OF rest])
    finally show ?thesis
      using False by simp
  qed
qed

text \<open>
  C9. The contents written are not independent of the batch size: the same two records
  end with a newline when they fill a batch of two, and without one when the batch size
  is three and they are written as the last, partial batch. By
  \<open>write_records_contents\<close> this is the general rule: the trailing newline is there
  exactly when the number of records is a positive multiple of the batch size.
\<close>

theorem write_records_trailing_newline:
  "write_records 2 [''a'', ''b''] = ''a'' @ newline @ ''b'' @ newline
   \<and> write_records 3 [''a'', ''b''] = ''a'' @ newline @ ''b''
   \<and> write_records 2 [''a'', ''b''] \<noteq> write_records 3 [''a'', ''b'']"
  by (simp add: write_records_def newline_def)

subsection \<open>The output path of \<open>save_dataset\<close>\<close>

lemma takeWhile_upto_sep:
  "c \<notin> set xs \<Longrightarrow> takeWhile (\<lambda>x. x \<noteq> c) (xs @ c # ys) = xs"
  by (induction xs) auto

lemma rfind_last_sep:
  "c \<notin> set file \<Longrightarrow> rfind (dir @ c # file) c = int (length dir)"
  using takeWhile_upto_sep [of c "rev file" "rev dir"] by (simp add: rfind_def)

lemma rfind_absent: "c \<notin> set p \<Longrightarrow> rfind p c = - 1"
  by (simp add: rfind_def)

lemma basename_of_file:
  "CHR ''/'' \<notin> set file \<Longrightarrow> basename (dir @ CHR ''/'' # file) = file"
  by (simp add: basename_def rfind_last_sep nat_add_distrib)

lemma rstrip_no_sep:
  assumes "dir \<noteq> []" "last dir \<noteq> c"
  shows "rstrip c (dir @ [c]) = dir"
proof -
  obtain xs x where dir: "dir = xs @ [x]"
    using assms(1) by (cases dir rule: rev_cases) auto
  with assms(2) have "x \<noteq> c" by simp
  then show ?thesis
    by (simp add: rstrip_def dir)
qed

lemma dirname_of_file:
  assumes "CHR ''/'' \<notin> set file" "dir \<noteq> []" "last dir \<noteq> CHR ''/''"
  shows "dirname (dir @ CHR ''/'' # file) = dir"
proof -
  have i: "nat (rfind (dir @ CHR ''/'' # file) CHR ''/'' + 1) = Suc (length dir)"
    using assms(1) by (simp add: rfind_last_sep)
  have head: "take (Suc (length dir)) (dir @ CHR ''/'' # file) = dir @ ''/''"
    by simp
  have "last dir \<in> set (dir @ ''/'')"
    using assms(2) by simp
  then have notall: "dir @ ''/'' \<noteq> replicate (length (dir @ ''/'')) CHR ''/''"
    using assms(3) by (metis in_set_replicate)
  have strip: "rstrip CHR ''/'' (dir @ ''/'') = dir"
    using assms(2,3) by (rule rstrip_no_sep)
  show ?thesis
    unfolding dirname_def i Let_def head using notall strip by simp
qed

text \<open>
  A path with a directory part \<open>dir\<close> (not empty, not ending in a slash) and a file
  name: the output file is in \<open>dir\<close>, named by the file name up to its extension.
\<close>

lemma full_path_with_directory:
  assumes "CHR ''/'' \<notin> set file" "dir \<noteq> []" "last dir \<noteq> CHR ''/''"
  shows "full_path (dir @ CHR ''/'' # file) = dir @ ''/'' @ fst (splitext file) @ ''.jsonl''"
  by (simp add: full_path_def dirname_of_file [OF assms] basename_of_file [OF assms(1)])

text \<open>
  A path that is a bare file name has the empty string as its directory, and the f-string
  puts the slash in front of the file name all the same.
\<close>

lemma full_path_bare_file_name:
  assumes "CHR ''/'' \<notin> set file"
  shows "full_path file = ''/'' @ fst (splitext file) @ ''.jsonl''"
  using assms by (simp add: full_path_def dirname_def basename_def rfind_absent)

text \<open>
  C8. For the relative path \<open>out.json\<close> the output is written to
  \<open>/out.jsonl\<close>, a file of the root directory and not of the directory the path
  names, while \<open>results/out.json\<close> is written to \<open>results/out.jsonl\<close>.
\<close>

theorem full_path_bare_file_name_in_root:
  "full_path ''out.json'' = ''/out.jsonl''
   \<and> full_path ''results/out.json'' = ''results/out.jsonl''"
  by (simp add: full_path_def dirname_def basename_def splitext_def rfind_def rstrip_def)

subsection \<open>The output record\<close>

lemma update_fresh: "k \<notin> fst ` set al \<Longrightarrow> AList.update k v al = al @ [(k, v)]"
  by (induction al) auto

lemma post_init_ok: "set ks \<subseteq> set cols \<Longrightarrow> post_init cols ks = None"
  by (induction ks) auto

lemma from_row_items_numeric:
  assumes "distinct (map fst row)"
    and "fst ` set dc \<inter> fst ` set row = {}"
    and "\<forall>(k, v) \<in> set row. k \<in> set score_names \<longrightarrow> (\<exists>x. v = NumV x)"
  shows "from_row_items cols score_names row dc scs =
     Inr (dc @ filter (\<lambda>(k, v). k \<notin> set score_names \<and> k \<in> set cols) row,
          scs @ map item_score (filter (\<lambda>(k, v). k \<in> set score_names) row))"
  using assms
proof (induction row arbitrary: dc scs)
  case Nil
  then show ?case by simp
next
  case (Cons kv row)
  obtain k v where kv: "kv = (k, v)" by (cases kv)
  have fresh: "k \<notin> fst ` set dc" using Cons.prems(2) kv by auto
  have d: "distinct (map fst row)" using Cons.prems(1) by simp
  have n: "\<forall>(k, v) \<in> set row. k \<in> set score_names \<longrightarrow> (\<exists>x. v = NumV x)"
    using Cons.prems(3) by simp
  have disj: "fst ` set dc \<inter> fst ` set row = {}" using Cons.prems(2) by auto
  have disj': "fst ` set (dc @ [(k, v)]) \<inter> fst ` set row = {}"
    using Cons.prems(1,2) kv by auto
  show ?case
  proof (cases "k \<in> set score_names")
    case True
    then obtain x where x: "v = NumV x" using Cons.prems(3) kv by auto
    show ?thesis
      using True x kv Cons.IH [OF d disj n] by (simp add: item_score_def)
  next
    case False
    show ?thesis
    proof (cases "k \<in> set cols")
      case True
      show ?thesis
        using False True kv Cons.IH [OF d disj' n] by (simp add: update_fresh [OF fresh])
    next
      case c: False
      show ?thesis
        using False c kv Cons.IH [OF d disj n] by simp
    qed
  qed
qed

lemma from_row_items_not_numeric:
  assumes "(k, StrV s) \<in> set row" "k \<in> set score_names"
  shows "from_row_items cols score_names row dc scs = Inl AssertionError"
  using assms
proof (induction row arbitrary: dc scs)
  case Nil
  then show ?case by simp
next
  case (Cons kv row)
  obtain k' v' where kv: "kv = (k', v')" by (cases kv)
  show ?case
  proof (cases "kv = (k, StrV s)")
    case True
    then show ?thesis using Cons.prems(2) by simp
  next
    case False
    then have "(k, StrV s) \<in> set row" using Cons.prems(1) by simp
    then have ih: "\<And>dc scs. from_row_items cols score_names row dc scs = Inl AssertionError"
      using Cons.IH Cons.prems(2) by simp
    show ?thesis
      unfolding kv by (simp add: ih split: pyval.splits)
  qed
qed


text \<open>
  C1 (amended). A row is a dictionary, so its keys are distinct. If every value under a
  key of \<open>score_names\<close> is numeric, \<open>from_row\<close> returns a record whose
  scores are, as (name, value) pairs and in the order of the row, exactly the items of
  the row with a key in \<open>score_names\<close>, and whose \<open>dataset_columns\<close> are
  exactly the items whose key is not in \<open>score_names\<close> and is in the allow-list;
  so the two groups are disjoint and every other key is in neither. If some key of
  \<open>score_names\<close> holds a string, \<open>from_row\<close> fails with
  \<open>AssertionError\<close>.
\<close>

theorem from_row_partition:
  assumes "distinct (map fst row)"
  shows "((\<forall>(k, v) \<in> set row. k \<in> set score_names \<longrightarrow> (\<exists>x. v = NumV x)) \<longrightarrow>
            (\<exists>r. from_row cols row score_names = Inr r
               \<and> map (\<lambda>s. (name s, NumV (val s))) (scores r) = filter (\<lambda>(k, v). k \<in> set score_names) row
               \<and> dataset_columns r = filter (\<lambda>(k, v). k \<notin> set score_names \<and> k \<in> set cols) row
               \<and> name ` set (scores r) \<inter> fst ` set (dataset_columns r) = {}))
       \<and> ((\<exists>k s. (k, StrV s) \<in> set row \<and> k \<in> set score_names) \<longrightarrow>
            from_row cols row score_names = Inl AssertionError)"
proof (intro conjI impI)
  assume num: "\<forall>(k, v) \<in> set row. k \<in> set score_names \<longrightarrow> (\<exists>x. v = NumV x)"
  let ?dc = "filter (\<lambda>(k, v). k \<notin> set score_names \<and> k \<in> set cols) row"
  let ?scs = "map item_score (filter (\<lambda>(k, v). k \<in> set score_names) row)"
  have loop: "from_row_items cols score_names row [] [] = Inr (?dc, ?scs)"
    using from_row_items_numeric [OF assms _ num, of "[]" cols "[]"] by simp
  have "set (map fst ?dc) \<subseteq> set cols" by auto
  then have "post_init cols (map fst ?dc) = None" by (rule post_init_ok)
  then have res: "from_row cols row score_names = Inr \<lparr>scores = ?scs, dataset_columns = ?dc\<rparr>"
    by (simp add: from_row_def loop new_EvalOutputRecord_def)
  have "map (\<lambda>s. (name s, NumV (val s))) ?scs = filter (\<lambda>(k, v). k \<in> set score_names) row"
  proof -
    have "map (\<lambda>kv. (name (item_score kv), NumV (val (item_score kv))))
                 (filter (\<lambda>(k, v). k \<in> set score_names) row)
               = filter (\<lambda>(k, v). k \<in> set score_names) row"
      by (rule map_idI) (use num in \<open>auto simp: item_score_def\<close>)
    then show ?thesis by (simp add: comp_def)
  qed
  moreover have "name ` set ?scs \<inter> fst ` set ?dc = {}"
    by (auto simp: item_score_def)
  ultimately show "\<exists>r. from_row cols row score_names = Inr r
               \<and> map (\<lambda>s. (name s, NumV (val s))) (scores r) = filter (\<lambda>(k, v). k \<in> set score_names) row
               \<and> dataset_columns r = filter (\<lambda>(k, v). k \<notin> set score_names \<and> k \<in> set cols) row
               \<and> name ` set (scores r) \<inter> fst ` set (dataset_columns r) = {}"
    using res by simp
next
  assume "\<exists>k s. (k, StrV s) \<in> set row \<and> k \<in> set score_names"
  then obtain k s where "(k, StrV s) \<in> set row" "k \<in> set score_names" by blast
  then have "from_row_items cols score_names row [] [] = Inl AssertionError"
    by (rule from_row_items_not_numeric)
  then show "from_row cols row score_names = Inl AssertionError"
    by (simp add: from_row_def)
qed

theorem from_row_partition_witness:
  "distinct (map fst [(''model_input'', StrV ''hello''), (''aux'', NumV 0.189), (''rouge'', NumV 0.5),
       (''bert_score'', NumV 0.42)])
   \<and> from_row [''model_input'', ''model_output'']
       [(''model_input'', StrV ''hello''), (''aux'', NumV 0.189), (''rouge'', NumV 0.5),
        (''bert_score'', NumV 0.42)]
       [''rouge'', ''bert_score'']
     = Inr \<lparr>scores = [\<lparr>name = ''rouge'', val = 0.5\<rparr>, \<lparr>name = ''bert_score'', val = 0.42\<rparr>],
            dataset_columns = [(''model_input'', StrV ''hello'')]\<rparr>
   \<and> from_row [''model_input'', ''model_output'']
       [(''model_input'', StrV ''hello''), (''rouge'', StrV ''high'')] [''rouge'']
     = Inl AssertionError"
  using from_row_partition [of "[(''model_input'', StrV ''hello''), (''aux'', NumV 0.189),
        (''rouge'', NumV 0.5), (''bert_score'', NumV 0.42)]" "[''rouge'', ''bert_score'']"
        "[''model_input'', ''model_output'']"]
    from_row_partition [of "[(''model_input'', StrV ''hello''), (''rouge'', StrV ''high'')]"
        "[''rouge'']" "[''model_input'', ''model_output'']"]
  by (simp add: from_row_def new_EvalOutputRecord_def)

text \<open>
  The claim as stated, for every row, fails at a row with a string under a score name:
  no record is produced.
\<close>

theorem from_row_string_score_counterexample:
  "from_row [''model_input'', ''model_output'']
     [(''model_input'', StrV ''hello''), (''rouge'', StrV ''high'')] [''rouge'']
   = Inl AssertionError"
  by (simp add: from_row_def)

lemma OrderedDict_append:
  "distinct (map fst (d @ ps)) \<Longrightarrow> foldl (\<lambda>d (k, v). AList.update k v d) d ps = d @ ps"
proof (induction ps arbitrary: d)
  case Nil
  then show ?case by simp
next
  case (Cons p ps)
  obtain k v where p: "p = (k, v)" by (cases p)
  from Cons.prems have fresh: "k \<notin> fst ` set d" by (auto simp: p)
  from Cons.prems have "distinct (map fst ((d @ [(k, v)]) @ ps))" by (simp add: p)
  then have "foldl (\<lambda>d (k, v). AList.update k v d) (d @ [(k, v)]) ps = (d @ [(k, v)]) @ ps"
    by (rule Cons.IH)
  then show ?case by (simp add: p update_fresh [OF fresh])
qed

lemma OrderedDict_distinct: "distinct (map fst ps) \<Longrightarrow> OrderedDict ps = ps"
  using OrderedDict_append [of "[]" ps] by (simp add: OrderedDict_def)

lemma column_items_keys:
  "map fst (column_items dc cols) = filter (\<lambda>c. c \<in> fst ` set dc) cols"
proof -
  have "map fst (column_items dc cols) = filter (\<lambda>c. map_of dc c \<noteq> None) cols"
    by (induction cols) (auto simp: column_items_def split: option.splits)
  then show ?thesis
    by (simp add: map_of_eq_None_iff)
qed

lemma column_items_lookup:
  "map_of (column_items dc cols) c = (if c \<in> set cols then map_option JVal (map_of dc c) else None)"
  by (induction cols) (auto simp: column_items_def split: option.splits)

lemma to_dict_items:
  assumes "distinct cols" "''scores'' \<notin> set cols"
  shows "to_dict cols r =
           column_items (dataset_columns r) cols @ [(''scores'', JScores (map score_dict (scores r)))]"
proof -
  have keys: "map fst (column_items (dataset_columns r) cols)
                = filter (\<lambda>c. c \<in> fst ` set (dataset_columns r)) cols"
    by (rule column_items_keys)
  have "distinct (map fst (column_items (dataset_columns r) cols))"
    unfolding keys using assms(1) by simp
  then have od: "OrderedDict (column_items (dataset_columns r) cols) = column_items (dataset_columns r) cols"
    by (rule OrderedDict_distinct)
  have "''scores'' \<notin> set (map fst (column_items (dataset_columns r) cols))"
    unfolding keys using assms(2) by simp
  then have "''scores'' \<notin> fst ` set (column_items (dataset_columns r) cols)"
    by simp
  then show ?thesis
    unfolding to_dict_def Let_def od by (rule update_fresh)
qed

text \<open>
  C3. With the allow-list an ordered dictionary's keys (distinct) that does not contain
  the name \<open>scores\<close>: the keys of the JSON object are the allow-listed columns
  that the record has, in the order of the allow-list, followed by \<open>scores\<close> as
  the last key; \<open>scores\<close> is always there and holds the list of the scores;
  every allow-listed column holds the record's value for it; and the object is the same
  for two records whose \<open>dataset_columns\<close> hold the same items in a different
  order.
\<close>

theorem to_dict_canonical_order:
  assumes "distinct cols" "''scores'' \<notin> set cols"
  shows "map fst (to_dict cols r) = filter (\<lambda>c. c \<in> fst ` set (dataset_columns r)) cols @ [''scores'']
    \<and> map_of (to_dict cols r) ''scores'' = Some (JScores (map score_dict (scores r)))
    \<and> (\<forall>c \<in> set cols. map_of (to_dict cols r) c = map_option JVal (map_of (dataset_columns r) c))
    \<and> (\<forall>r' :: EvalOutputRecord. map_of (dataset_columns r') = map_of (dataset_columns r) \<and> scores r' = scores r
            \<longrightarrow> to_dict cols r' = to_dict cols r)"
proof (intro conjI ballI allI impI)
  show "map fst (to_dict cols r) = filter (\<lambda>c. c \<in> fst ` set (dataset_columns r)) cols @ [''scores'']"
    by (simp add: to_dict_items [OF assms] column_items_keys)
next
  have "''scores'' \<notin> dom (map_of (column_items (dataset_columns r) cols))"
    using assms(2) by (simp add: dom_def column_items_lookup)
  then show "map_of (to_dict cols r) ''scores'' = Some (JScores (map score_dict (scores r)))"
    by (simp add: to_dict_items [OF assms] map_add_def column_items_lookup assms(2))
next
  fix c assume c: "c \<in> set cols"
  then have "c \<noteq> ''scores''" using assms(2) by auto
  then show "map_of (to_dict cols r) c = map_option JVal (map_of (dataset_columns r) c)"
    using c by (simp add: to_dict_items [OF assms] map_add_def column_items_lookup split: option.splits)
next
  fix r' :: EvalOutputRecord
  assume "map_of (dataset_columns r') = map_of (dataset_columns r) \<and> scores r' = scores r"
  then show "to_dict cols r' = to_dict cols r"
    by (simp add: to_dict_def column_items_def)
qed

theorem to_dict_canonical_order_witness:
  "distinct [''model_input'', ''model_output'', ''target_output'']
   \<and> ''scores'' \<notin> set [''model_input'', ''model_output'', ''target_output'']
   \<and> map fst (to_dict [''model_input'', ''model_output'', ''target_output'']
         \<lparr>scores = [\<lparr>name = ''rouge'', val = 0.5\<rparr>],
          dataset_columns = [(''model_output'', StrV ''o''), (''model_input'', StrV ''hello'')]\<rparr>)
       = [''model_input'', ''model_output'', ''scores'']
   \<and> map_of (to_dict [''model_input'', ''model_output'', ''target_output'']
         \<lparr>scores = [\<lparr>name = ''rouge'', val = 0.5\<rparr>],
          dataset_columns = [(''model_output'', StrV ''o''), (''model_input'', StrV ''hello'')]\<rparr>)
         ''scores''
       = Some (JScores [[(''name'', StrV ''rouge''), (''value'', NumV 0.5)]])"
proof -
  let ?cols = "[''model_input'', ''model_output'', ''target_output'']"
  let ?r = "\<lparr>scores = [\<lparr>name = ''rouge'', val = 0.5\<rparr>],
          dataset_columns = [(''model_output'', StrV ''o''), (''model_input'', StrV ''hello'')]\<rparr>"
  have d: "distinct ?cols" by simp
  have n: "''scores'' \<notin> set ?cols" by simp
  note t = to_dict_canonical_order [OF d n, of ?r]
  have keys: "map fst (to_dict ?cols ?r) = [''model_input'', ''model_output'', ''scores'']"
    using conjunct1 [OF t] by simp
  have sc: "map_of (to_dict ?cols ?r) ''scores'' = Some (JScores [[(''name'', StrV ''rouge''), (''value'', NumV 0.5)]])"
    using conjunct1 [OF conjunct2 [OF t]] by (simp add: score_dict_def)
  show ?thesis
    using d n keys sc by blast
qed

subsection \<open>The transforms\<close>

lemma str_nat_2_3: "str_nat 2 = ''2''" "str_nat 3 = ''3''"
  by (simp_all add: str_nat.simps digit_char_def)

lemma validate_call_present:
  "\<forall>k \<in> set ks. map_of record k \<noteq> None \<Longrightarrow> validate_call t ks record = None"
  by (induction ks) (auto split: option.splits)

lemma validate_call_values:
  "map (map_of record) ks = map Some vs \<Longrightarrow> validate_call t ks record = None"
proof (rule validate_call_present, rule ballI)
  fix k assume m: "map (map_of record) ks = map Some vs" and k: "k \<in> set ks"
  then have "map_of record k \<in> set (map Some vs)"
    by (metis image_eqI list.set_map)
  then show "map_of record k \<noteq> None" by auto
qed

lemma values_of_values:
  "map (map_of record) ks = map Some vs \<Longrightarrow> values_of record ks = Inr vs"
  by (induction ks arbitrary: vs) auto


lemma register_allowing_duplicates:
  "register_input_output_keys ks [k] True = Inr \<lparr>input_keys = ks, output_keys = [k]\<rparr>"
  by (simp add: register_input_output_keys_def)

lemma digit_char_cases:
  "list_all (\<lambda>d. digit_value (digit_char d) = d \<and> digit_char d \<in> set ''0123456789''
      \<and> (digit_char d = CHR ''0'' \<longleftrightarrow> d = 0)) [0..<10]"
  by code_simp

lemma digit_char_digit:
  assumes "d < 10"
  shows "digit_value (digit_char d) = d" "digit_char d \<in> set ''0123456789''"
    "digit_char d = CHR ''0'' \<longleftrightarrow> d = 0"
proof -
  have "d \<in> set [0..<10]" using assms by simp
  with digit_char_cases have "digit_value (digit_char d) = d \<and> digit_char d \<in> set ''0123456789''
      \<and> (digit_char d = CHR ''0'' \<longleftrightarrow> d = 0)"
    unfolding list_all_iff by blast
  then show "digit_value (digit_char d) = d" "digit_char d \<in> set ''0123456789''"
    "digit_char d = CHR ''0'' \<longleftrightarrow> d = 0" by blast+
qed

lemma decimal_value_snoc:
  "decimal_value (s @ [c]) = 10 * decimal_value s + digit_value c"
  by (simp add: decimal_value_def)

lemma str_nat_nonempty: "str_nat n \<noteq> []"
  by (subst str_nat.simps) simp

lemma str_nat_digits: "set (str_nat n) \<subseteq> set ''0123456789''"
proof (induction n rule: str_nat.induct)
  case (1 n)
  show ?case
  proof (cases "n < 10")
    case True
    then show ?thesis
      using digit_char_digit(2) [of n] by (subst str_nat.simps) simp
  next
    case False
    have "n mod 10 < 10" by simp
    then have "digit_char (n mod 10) \<in> set ''0123456789''" by (rule digit_char_digit(2))
    then show ?thesis
      using False 1 by (subst str_nat.simps) simp
  qed
qed

lemma str_nat_value: "decimal_value (str_nat n) = n"
proof (induction n rule: str_nat.induct)
  case (1 n)
  show ?case
  proof (cases "n < 10")
    case True
    then show ?thesis
      using digit_char_digit(1) [of n] by (subst str_nat.simps) (simp add: decimal_value_def)
  next
    case False
    have "n mod 10 < 10" by simp
    then have d: "digit_value (digit_char (n mod 10)) = n mod 10" by (rule digit_char_digit(1))
    have "decimal_value (str_nat n) = 10 * decimal_value (str_nat (n div 10)) + n mod 10"
      using False d by (subst str_nat.simps) (simp add: decimal_value_snoc)
    also have "\<dots> = 10 * (n div 10) + n mod 10"
      using False 1 by simp
    finally show ?thesis by simp
  qed
qed

lemma str_nat_leading: "hd (str_nat n) = CHR ''0'' \<Longrightarrow> n = 0"
proof (induction n rule: str_nat.induct)
  case (1 n)
  show ?case
  proof (cases "n < 10")
    case True
    then have "str_nat n = [digit_char n]" by (subst str_nat.simps) simp
    with "1.prems" have "digit_char n = CHR ''0''" by simp
    then show ?thesis using digit_char_digit(3) [OF True] by simp
  next
    case False
    then have "str_nat n = str_nat (n div 10) @ [digit_char (n mod 10)]"
      by (subst str_nat.simps) simp
    then have "hd (str_nat n) = hd (str_nat (n div 10))"
      using str_nat_nonempty [of "n div 10"] by simp
    with "1.prems" have "hd (str_nat (n div 10)) = CHR ''0''" by simp
    then have "n div 10 = 0" using False "1.IH" by simp
    then show ?thesis using False by simp
  qed
qed

lemma str_nat_zero: "str_nat 0 = ''0''"
  by (subst str_nat.simps) (simp add: digit_char_def)

lemma str_nat_decimal: "is_decimal (str_nat n) n"
  unfolding is_decimal_def
  using str_nat_nonempty str_nat_digits str_nat_value str_nat_leading str_nat_zero
  by metis

lemma str_nat_12_10: "str_nat 12 = ''12''" "str_nat 10 = ''10''"
  by (simp_all add: str_nat.simps digit_char_def)

text \<open>
  C4. Constructing a \<open>WER\<close> with key lists of different lengths fails with the
  client error (the specification's \<open>ConfigError\<close>) whose message states both
  lengths: between the fixed words it holds the decimal numeral of the number of
  prediction keys and the decimal numeral of the number of reference keys; for lengths 2
  and 3 the message is exactly the one of the library's test; with lists of equal length
  the construction succeeds and the object holds the keys it was given.
\<close>

theorem WER_init_lengths:
  "(length pk \<noteq> length rk \<longrightarrow>
      (\<exists>sp sr. is_decimal sp (length pk) \<and> is_decimal sr (length rk)
         \<and> WER_init pk rk ok = Inl (EvalAlgorithmClientError
             (''prediction_keys and reference_keys should have the same number of elements. ''
              @ ''prediction_keys has '' @ sp
              @ '' elements while reference_keys has '' @ sr @ '' elements.''))))
   \<and> (length pk \<noteq> length rk \<longrightarrow>
      WER_init pk rk ok = Inl (EvalAlgorithmClientError
        (''prediction_keys and reference_keys should have the same number of elements. ''
         @ ''prediction_keys has '' @ str_nat (length pk)
         @ '' elements while reference_keys has '' @ str_nat (length rk) @ '' elements.'')))
   \<and> (length pk = 2 \<and> length rk = 3 \<longrightarrow>
      WER_init pk rk ok = Inl (EvalAlgorithmClientError
        ''prediction_keys and reference_keys should have the same number of elements. prediction_keys has 2 elements while reference_keys has 3 elements.''))
   \<and> (length pk = length rk \<longrightarrow>
      WER_init pk rk ok = Inr \<lparr>input_keys = pk @ rk, output_keys = [ok],
                              prediction_keys = pk, reference_keys = rk, output_key = ok\<rparr>)"
proof (intro conjI impI)
  assume ne: "length pk \<noteq> length rk"
  then have m: "WER_init pk rk ok = Inl (EvalAlgorithmClientError
        (''prediction_keys and reference_keys should have the same number of elements. ''
         @ ''prediction_keys has '' @ str_nat (length pk)
         @ '' elements while reference_keys has '' @ str_nat (length rk) @ '' elements.''))"
    by (simp add: WER_init_def require_def WER_message_def)
  have "is_decimal (str_nat (length pk)) (length pk)" by (rule str_nat_decimal)
  moreover have "is_decimal (str_nat (length rk)) (length rk)" by (rule str_nat_decimal)
  moreover note m
  ultimately show "\<exists>sp sr. is_decimal sp (length pk) \<and> is_decimal sr (length rk)
         \<and> WER_init pk rk ok = Inl (EvalAlgorithmClientError
             (''prediction_keys and reference_keys should have the same number of elements. ''
              @ ''prediction_keys has '' @ sp
              @ '' elements while reference_keys has '' @ sr @ '' elements.''))"
    by (intro exI [of _ "str_nat (length pk)"] exI [of _ "str_nat (length rk)"] conjI)
next
  assume "length pk \<noteq> length rk"
  then show "WER_init pk rk ok = Inl (EvalAlgorithmClientError
        (''prediction_keys and reference_keys should have the same number of elements. ''
         @ ''prediction_keys has '' @ str_nat (length pk)
         @ '' elements while reference_keys has '' @ str_nat (length rk) @ '' elements.''))"
    by (simp add: WER_init_def require_def WER_message_def)
next
  assume "length pk = 2 \<and> length rk = 3"
  then show "WER_init pk rk ok = Inl (EvalAlgorithmClientError
        ''prediction_keys and reference_keys should have the same number of elements. prediction_keys has 2 elements while reference_keys has 3 elements.'')"
    by (simp add: WER_init_def require_def WER_message_def str_nat_2_3)
next
  assume "length pk = length rk"
  then show "WER_init pk rk ok = Inr \<lparr>input_keys = pk @ rk, output_keys = [ok],
                              prediction_keys = pk, reference_keys = rk, output_key = ok\<rparr>"
    by (simp add: WER_init_def require_def register_allowing_duplicates)
qed

theorem WER_init_lengths_witness:
  "length [''p1'', ''p2''] \<noteq> length [''r1'', ''r2'', ''r3'']
   \<and> WER_init [''p1'', ''p2''] [''r1'', ''r2'', ''r3''] ''wer'' = Inl (EvalAlgorithmClientError
        ''prediction_keys and reference_keys should have the same number of elements. prediction_keys has 2 elements while reference_keys has 3 elements.'')
   \<and> WER_init (replicate 12 ''p'') (replicate 10 ''r'') ''wer'' = Inl (EvalAlgorithmClientError
        ''prediction_keys and reference_keys should have the same number of elements. prediction_keys has 12 elements while reference_keys has 10 elements.'')
   \<and> WER_init [''p1'', ''p2'', ''p3''] [''r1'', ''r2'', ''r3''] ''wer''
       = Inr \<lparr>input_keys = [''p1'', ''p2'', ''p3'', ''r1'', ''r2'', ''r3''], output_keys = [''wer''],
              prediction_keys = [''p1'', ''p2'', ''p3''], reference_keys = [''r1'', ''r2'', ''r3''],
              output_key = ''wer''\<rparr>"
proof -
  have l: "length [''p1'', ''p2''] = 2 \<and> length [''r1'', ''r2'', ''r3''] = 3"
    by simp
  have e: "length [''p1'', ''p2'', ''p3''] = length [''r1'', ''r2'', ''r3'']"
    by simp
  have n: "length (replicate 12 ''p'') \<noteq> length (replicate 10 ''r'')"
    by simp
  note t1 = WER_init_lengths [of "[''p1'', ''p2'']" "[''r1'', ''r2'', ''r3'']" "''wer''"]
  note t2 = WER_init_lengths [of "[''p1'', ''p2'', ''p3'']" "[''r1'', ''r2'', ''r3'']" "''wer''"]
  note t3 = WER_init_lengths [of "replicate 12 ''p''" "replicate 10 ''r''" "''wer''"]
  note a = mp [OF conjunct1 [OF conjunct2 [OF conjunct2 [OF t1]]] l]
  note b = mp [OF conjunct2 [OF conjunct2 [OF conjunct2 [OF t2]]] e]
  note c = mp [OF conjunct1 [OF conjunct2 [OF t3]] n]
  have c': "WER_init (replicate 12 ''p'') (replicate 10 ''r'') ''wer'' = Inl (EvalAlgorithmClientError
        ''prediction_keys and reference_keys should have the same number of elements. prediction_keys has 12 elements while reference_keys has 10 elements.'')"
    using c by (simp add: str_nat_12_10)
  show ?thesis
    using a b c' by simp
qed

lemma WER_init_fields:
  assumes "WER_init pk rk ok = Inr w"
  shows "length pk = length rk \<and> input_keys w = pk @ rk \<and> prediction_keys w = pk
         \<and> reference_keys w = rk \<and> output_key w = ok"
  using assms
  by (auto simp: WER_init_def require_def register_allowing_duplicates split: if_splits)

text \<open>
  C5. For a constructed \<open>WER\<close> and a record that holds a value for every
  prediction key (the list \<open>ps\<close>, in the order of the keys) and every reference key
  (the list \<open>rs\<close>): the external metric is called exactly once, with \<open>ps\<close>
  as predictions and \<open>rs\<close> as references, two lists of the same length whose
  entries at each position are the values of the prediction key and the reference key at
  that position; the value it returns is stored under the output key, and every other key
  of the record keeps its value.
\<close>

theorem WER_call_pairs:
  assumes "WER_init pk rk ok = Inr w"
    and "map (map_of record) pk = map Some ps"
    and "map (map_of record) rk = map Some rs"
  shows "WER_call compute w record
           = (Inr (AList.update ok (compute ps rs) record), [(ps, rs)])
    \<and> length ps = length rs
    \<and> (\<forall>i < length pk. map_of record (pk ! i) = Some (ps ! i) \<and> map_of record (rk ! i) = Some (rs ! i))
    \<and> map_of (AList.update ok (compute ps rs) record) ok = Some (compute ps rs)
    \<and> (\<forall>k. k \<noteq> ok \<longrightarrow> map_of (AList.update ok (compute ps rs) record) k = map_of record k)"
proof -
  note f = WER_init_fields [OF assms(1)]
  have lp: "length ps = length pk" using assms(2) by (metis length_map)
  have lr: "length rs = length rk" using assms(3) by (metis length_map)
  have "map (map_of record) (pk @ rk) = map Some (ps @ rs)"
    using assms(2,3) by simp
  then have v: "validate_call ''WER'' (input_keys w) record = None"
    using f validate_call_values by metis
  have p: "values_of record (prediction_keys w) = Inr ps"
    using f values_of_values [OF assms(2)] by simp
  have r: "values_of record (reference_keys w) = Inr rs"
    using f values_of_values [OF assms(3)] by simp
  have call: "WER_call compute w record = (Inr (AList.update ok (compute ps rs) record), [(ps, rs)])"
    unfolding WER_call_def v p r using f by simp
  have nth: "\<forall>i < length pk. map_of record (pk ! i) = Some (ps ! i) \<and> map_of record (rk ! i) = Some (rs ! i)"
  proof (intro allI impI conjI)
    fix i assume i: "i < length pk"
    then have "map (map_of record) pk ! i = map Some ps ! i" using assms(2) by simp
    then show "map_of record (pk ! i) = Some (ps ! i)" using i lp by simp
    from i have i': "i < length rk" using f by simp
    then have "map (map_of record) rk ! i = map Some rs ! i" using assms(3) by simp
    then show "map_of record (rk ! i) = Some (rs ! i)" using i' lr by simp
  qed
  show ?thesis
    using call nth lp lr f by (simp add: update_conv')
qed

theorem WER_call_pairs_witness:
  "WER_init [''p1'', ''p2'', ''p3''] [''r1'', ''r2'', ''r3''] ''wer''
       = Inr \<lparr>input_keys = [''p1'', ''p2'', ''p3'', ''r1'', ''r2'', ''r3''], output_keys = [''wer''],
              prediction_keys = [''p1'', ''p2'', ''p3''], reference_keys = [''r1'', ''r2'', ''r3''],
              output_key = ''wer''\<rparr>
   \<and> WER_call (\<lambda>predictions references. NumV 0.123)
        \<lparr>input_keys = [''p1'', ''p2'', ''p3'', ''r1'', ''r2'', ''r3''], output_keys = [''wer''],
              prediction_keys = [''p1'', ''p2'', ''p3''], reference_keys = [''r1'', ''r2'', ''r3''],
              output_key = ''wer''\<rparr>
        [(''p1'', StrV ''a''), (''p2'', StrV ''b''), (''p3'', StrV ''c''),
         (''r1'', StrV ''d''), (''r2'', StrV ''e''), (''r3'', StrV ''f'')]
     = (Inr [(''p1'', StrV ''a''), (''p2'', StrV ''b''), (''p3'', StrV ''c''),
             (''r1'', StrV ''d''), (''r2'', StrV ''e''), (''r3'', StrV ''f''), (''wer'', NumV 0.123)],
        [([StrV ''a'', StrV ''b'', StrV ''c''], [StrV ''d'', StrV ''e'', StrV ''f''])])"
proof -
  let ?w = "\<lparr>input_keys = [''p1'', ''p2'', ''p3'', ''r1'', ''r2'', ''r3''], output_keys = [''wer''],
              prediction_keys = [''p1'', ''p2'', ''p3''], reference_keys = [''r1'', ''r2'', ''r3''],
              output_key = ''wer''\<rparr>"
  let ?sample = "[(''p1'', StrV ''a''), (''p2'', StrV ''b''), (''p3'', StrV ''c''),
         (''r1'', StrV ''d''), (''r2'', StrV ''e''), (''r3'', StrV ''f'')]"
  have i: "WER_init [''p1'', ''p2'', ''p3''] [''r1'', ''r2'', ''r3''] ''wer'' = Inr ?w"
    by (simp add: WER_init_def require_def register_allowing_duplicates)
  have p: "map (map_of ?sample) [''p1'', ''p2'', ''p3''] = map Some [StrV ''a'', StrV ''b'', StrV ''c'']"
    by simp
  have r: "map (map_of ?sample) [''r1'', ''r2'', ''r3''] = map Some [StrV ''d'', StrV ''e'', StrV ''f'']"
    by simp
  from WER_call_pairs [OF i p r, of "\<lambda>predictions references. NumV 0.123"]
  have "WER_call (\<lambda>predictions references. NumV 0.123) ?w ?sample
      = (Inr (AList.update ''wer'' (NumV 0.123) ?sample),
         [([StrV ''a'', StrV ''b'', StrV ''c''], [StrV ''d'', StrV ''e'', StrV ''f''])])"
    by (rule conjunct1)
  then show ?thesis using i by simp
qed






subsection \<open>The determinism check\<close>

lemma verify_rows_replays:
  assumes "\<forall>row \<in> set rows. map_of row col \<noteq> None"
  shows "\<exists>b m' outs. verify_rows predict col rows m calls
            = (Inr b, m', calls @ calls_for col (zip rows outs))
          \<and> length outs \<le> length rows
          \<and> (\<forall>(o1, o2) \<in> set (butlast outs). o1 = o2)
          \<and> (b \<longleftrightarrow> (\<forall>(o1, o2) \<in> set outs. o1 = o2))
          \<and> (b \<longrightarrow> length outs = length rows)
          \<and> run_calls predict m (map fst (calls_for col (zip rows outs)))
               = (map snd (calls_for col (zip rows outs)), m')"
  using assms
proof (induction rows arbitrary: m calls)
  case Nil
  have "verify_rows predict col [] m calls = (Inr True, m, calls @ calls_for col (zip [] []))"
    by (simp add: calls_for_def)
  moreover have "run_calls predict m (map fst (calls_for col (zip [] [])))
               = (map snd (calls_for col (zip [] [])), m)"
    by (simp add: calls_for_def)
  ultimately show ?case
    by (intro exI [of _ True] exI [of _ m] exI [of _ "[]"]) simp
next
  case (Cons row rows)
  then obtain p where p: "map_of row col = Some p" by auto
  obtain first m1 where f: "predict m p = (first, m1)" by (cases "predict m p")
  obtain second m2 where s: "predict m1 p = (second, m2)" by (cases "predict m1 p")
  let ?calls = "calls @ [(p, fst first), (p, fst second)]"
  show ?case
  proof (cases "fst second \<noteq> fst first")
    case True
    have "verify_rows predict col (row # rows) m calls
            = (Inr False, m2, calls @ calls_for col (zip (row # rows) [(fst first, fst second)]))"
      using True by (simp add: p f s calls_for_def Let_def)
    moreover have "length [(fst first, fst second)] \<le> length (row # rows)" by simp
    moreover have "\<forall>(o1, o2) \<in> set (butlast [(fst first, fst second)]). o1 = o2" by simp
    moreover have "False \<longleftrightarrow> (\<forall>(o1, o2) \<in> set [(fst first, fst second)]. o1 = o2)"
      using True by auto
    moreover have "False \<longrightarrow> length [(fst first, fst second)] = length (row # rows)"
      by simp
    moreover have "run_calls predict m
                     (map fst (calls_for col (zip (row # rows) [(fst first, fst second)])))
               = (map snd (calls_for col (zip (row # rows) [(fst first, fst second)])), m2)"
      by (simp add: p f s calls_for_def)
    ultimately show ?thesis
      by (intro exI [of _ False] exI [of _ m2] exI [of _ "[(fst first, fst second)]"] conjI)
  next
    case False
    from Cons.prems have "\<forall>row \<in> set rows. map_of row col \<noteq> None" by simp
    note step = Cons.IH [OF this, of m2 ?calls]
    from step obtain b where "\<exists>m' outs. verify_rows predict col rows m2 ?calls
            = (Inr b, m', ?calls @ calls_for col (zip rows outs))
          \<and> length outs \<le> length rows
          \<and> (\<forall>(o1, o2) \<in> set (butlast outs). o1 = o2)
          \<and> (b \<longleftrightarrow> (\<forall>(o1, o2) \<in> set outs. o1 = o2))
          \<and> (b \<longrightarrow> length outs = length rows)
          \<and> run_calls predict m2 (map fst (calls_for col (zip rows outs)))
               = (map snd (calls_for col (zip rows outs)), m')" by (rule exE)
    then obtain m' where "\<exists>outs. verify_rows predict col rows m2 ?calls
            = (Inr b, m', ?calls @ calls_for col (zip rows outs))
          \<and> length outs \<le> length rows
          \<and> (\<forall>(o1, o2) \<in> set (butlast outs). o1 = o2)
          \<and> (b \<longleftrightarrow> (\<forall>(o1, o2) \<in> set outs. o1 = o2))
          \<and> (b \<longrightarrow> length outs = length rows)
          \<and> run_calls predict m2 (map fst (calls_for col (zip rows outs)))
               = (map snd (calls_for col (zip rows outs)), m')" by (rule exE)
    then obtain outs where c: "verify_rows predict col rows m2 ?calls
            = (Inr b, m', ?calls @ calls_for col (zip rows outs))
          \<and> length outs \<le> length rows
          \<and> (\<forall>(o1, o2) \<in> set (butlast outs). o1 = o2)
          \<and> (b \<longleftrightarrow> (\<forall>(o1, o2) \<in> set outs. o1 = o2))
          \<and> (b \<longrightarrow> length outs = length rows)
          \<and> run_calls predict m2 (map fst (calls_for col (zip rows outs)))
               = (map snd (calls_for col (zip rows outs)), m')" by (rule exE)
    note ih = conjunct1 [OF c]
    note len = conjunct1 [OF conjunct2 [OF c]]
    note bl = conjunct1 [OF conjunct2 [OF conjunct2 [OF c]]]
    note iff = conjunct1 [OF conjunct2 [OF conjunct2 [OF conjunct2 [OF c]]]]
    note full = conjunct1 [OF conjunct2 [OF conjunct2 [OF conjunct2 [OF conjunct2 [OF c]]]]]
    note replay = conjunct2 [OF conjunct2 [OF conjunct2 [OF conjunct2 [OF conjunct2 [OF c]]]]]
    let ?outs = "(fst first, fst second) # outs"
    have "verify_rows predict col (row # rows) m calls
            = (Inr b, m', calls @ calls_for col (zip (row # rows) ?outs))"
      using False ih by (simp add: p f s calls_for_def Let_def)
    moreover have "length ?outs \<le> length (row # rows)" using len by simp
    moreover have "\<forall>(o1, o2) \<in> set (butlast ?outs). o1 = o2"
      using bl False by auto
    moreover have "b \<longleftrightarrow> (\<forall>(o1, o2) \<in> set ?outs. o1 = o2)"
      using iff False by auto
    moreover have "b \<longrightarrow> length ?outs = length (row # rows)"
      using full by simp
    moreover have "run_calls predict m (map fst (calls_for col (zip (row # rows) ?outs)))
               = (map snd (calls_for col (zip (row # rows) ?outs)), m')"
    proof -
      have e: "calls_for col (zip (row # rows) ?outs)
                 = (p, fst first) # (p, fst second) # calls_for col (zip rows outs)"
        by (simp add: calls_for_def p)
      show ?thesis
        unfolding e using replay by (simp add: f s)
    qed
    ultimately show ?thesis
      by (intro exI [of _ b] exI [of _ m'] exI [of _ ?outs] conjI)
  qed
qed

text \<open>
  C7. When the first \<open>num_rows\<close> rows all have the prompt column, the check
  returns a Boolean \<open>b\<close>, and there is a list \<open>outs\<close> of output pairs, one
  per examined row, such that: the calls made to the model are exactly two per examined
  row, in the order of the rows and both with the row's prompt; the logged outputs are
  the model's own, that is, asking the model the logged prompts one after the other from
  its initial state returns exactly the logged outputs and leaves it in the final state;
  the examined rows are a prefix of the first \<open>num_rows\<close> rows; every examined row
  but the last has two equal outputs; \<open>b\<close> is true if and only if every examined
  row has two equal outputs, and then all of the first \<open>num_rows\<close> rows were
  examined; and when \<open>b\<close> is false the last examined row is the one whose outputs
  differ, so no later row was passed to the model.
\<close>

theorem verify_model_determinism_examines:
  assumes "\<forall>row \<in> set (take num_rows dataset). map_of row col \<noteq> None"
  shows "\<exists>b m' outs.
           verify_model_determinism num_rows predict m dataset col
             = (Inr b, m', calls_for col (zip dataset outs))
         \<and> length outs \<le> min num_rows (length dataset)
         \<and> (\<forall>(o1, o2) \<in> set (butlast outs). o1 = o2)
         \<and> (b \<longleftrightarrow> (\<forall>(o1, o2) \<in> set outs. o1 = o2))
         \<and> (b \<longrightarrow> length outs = min num_rows (length dataset))
         \<and> (\<not> b \<longrightarrow> outs \<noteq> [] \<and> fst (last outs) \<noteq> snd (last outs))
         \<and> run_calls predict m (map fst (calls_for col (zip dataset outs)))
               = (map snd (calls_for col (zip dataset outs)), m')"
proof -
  note step = verify_rows_replays [OF assms, of predict m "[]"]
  from step obtain b where "\<exists>m' outs. verify_rows predict col (take num_rows dataset) m []
            = (Inr b, m', [] @ calls_for col (zip (take num_rows dataset) outs))
          \<and> length outs \<le> length (take num_rows dataset)
          \<and> (\<forall>(o1, o2) \<in> set (butlast outs). o1 = o2)
          \<and> (b \<longleftrightarrow> (\<forall>(o1, o2) \<in> set outs. o1 = o2))
          \<and> (b \<longrightarrow> length outs = length (take num_rows dataset))
          \<and> run_calls predict m (map fst (calls_for col (zip (take num_rows dataset) outs)))
               = (map snd (calls_for col (zip (take num_rows dataset) outs)), m')" by (rule exE)
  then obtain m' where "\<exists>outs. verify_rows predict col (take num_rows dataset) m []
            = (Inr b, m', [] @ calls_for col (zip (take num_rows dataset) outs))
          \<and> length outs \<le> length (take num_rows dataset)
          \<and> (\<forall>(o1, o2) \<in> set (butlast outs). o1 = o2)
          \<and> (b \<longleftrightarrow> (\<forall>(o1, o2) \<in> set outs. o1 = o2))
          \<and> (b \<longrightarrow> length outs = length (take num_rows dataset))
          \<and> run_calls predict m (map fst (calls_for col (zip (take num_rows dataset) outs)))
               = (map snd (calls_for col (zip (take num_rows dataset) outs)), m')" by (rule exE)
  then obtain outs where c: "verify_rows predict col (take num_rows dataset) m []
            = (Inr b, m', [] @ calls_for col (zip (take num_rows dataset) outs))
          \<and> length outs \<le> length (take num_rows dataset)
          \<and> (\<forall>(o1, o2) \<in> set (butlast outs). o1 = o2)
          \<and> (b \<longleftrightarrow> (\<forall>(o1, o2) \<in> set outs. o1 = o2))
          \<and> (b \<longrightarrow> length outs = length (take num_rows dataset))
          \<and> run_calls predict m (map fst (calls_for col (zip (take num_rows dataset) outs)))
               = (map snd (calls_for col (zip (take num_rows dataset) outs)), m')" by (rule exE)
  note r = conjunct1 [OF c]
  note len = conjunct1 [OF conjunct2 [OF c]]
  note bl = conjunct1 [OF conjunct2 [OF conjunct2 [OF c]]]
  note iff = conjunct1 [OF conjunct2 [OF conjunct2 [OF conjunct2 [OF c]]]]
  note full = conjunct1 [OF conjunct2 [OF conjunct2 [OF conjunct2 [OF conjunct2 [OF c]]]]]
  note replay = conjunct2 [OF conjunct2 [OF conjunct2 [OF conjunct2 [OF conjunct2 [OF c]]]]]
  have z: "zip (take num_rows dataset) outs = zip dataset outs"
  proof -
    have "zip (take num_rows dataset) outs = take num_rows (zip dataset outs)"
      using len by (simp add: take_zip)
    also have "\<dots> = zip dataset outs"
      using len by simp
    finally show ?thesis .
  qed
  have last: "\<not> b \<longrightarrow> outs \<noteq> [] \<and> fst (last outs) \<noteq> snd (last outs)"
  proof
    assume nb: "\<not> b"
    then obtain o1 o2 where o: "(o1, o2) \<in> set outs" "o1 \<noteq> o2" using iff by auto
    then have ne: "outs \<noteq> []" by auto
    then have "set outs = set (butlast outs @ [last outs])" by simp
    then have "set outs = set (butlast outs) \<union> {last outs}"
      by (simp only: set_append list.set)
    with o(1) have "(o1, o2) \<in> set (butlast outs) \<or> (o1, o2) = last outs" by blast
    with o(2) bl have "last outs = (o1, o2)" by auto
    then show "outs \<noteq> [] \<and> fst (last outs) \<noteq> snd (last outs)"
      using ne o(2) by simp
  qed
  have "verify_model_determinism num_rows predict m dataset col
             = (Inr b, m', calls_for col (zip dataset outs))"
    using r z by (simp add: verify_model_determinism_def)
  moreover have "length outs \<le> min num_rows (length dataset)" using len by simp
  moreover have "b \<longrightarrow> length outs = min num_rows (length dataset)"
    using full by (simp add: min.commute)
  moreover have "run_calls predict m (map fst (calls_for col (zip dataset outs)))
               = (map snd (calls_for col (zip dataset outs)), m')"
    using replay unfolding z .
  moreover note bl iff last
  ultimately show ?thesis
    by (intro exI [of _ b] exI [of _ m'] exI [of _ outs] conjI)
qed

theorem verify_model_determinism_examines_witness:
  "verify_model_determinism 2 (\<lambda>m prompt. ((Some (if m = (1::nat) then ''x'' else ''y''), None), Suc m)) 0
      [[(''prompt'', StrV ''p1'')], [(''prompt'', StrV ''p2'')], [(''prompt'', StrV ''p3'')]] ''prompt''
     = (Inr False, 2, [(StrV ''p1'', Some ''y''), (StrV ''p1'', Some ''x'')])
   \<and> verify_model_determinism 2 (\<lambda>m prompt. ((Some ''same'', None), Suc m)) (0::nat)
      [[(''prompt'', StrV ''p1'')], [(''prompt'', StrV ''p2'')], [(''prompt'', StrV ''p3'')]] ''prompt''
     = (Inr True, 4, [(StrV ''p1'', Some ''same''), (StrV ''p1'', Some ''same''),
                      (StrV ''p2'', Some ''same''), (StrV ''p2'', Some ''same'')])"
proof -
  let ?ds = "[[(''prompt'', StrV ''p1'')], [(''prompt'', StrV ''p2'')], [(''prompt'', StrV ''p3'')]]"
  have h: "\<forall>row \<in> set (take 2 ?ds). map_of row ''prompt'' \<noteq> None"
    by (simp add: numeral_2_eq_2)
  note t1 = verify_model_determinism_examines [OF h,
      of "\<lambda>m prompt. ((Some (if m = (1::nat) then ''x'' else ''y''), None), Suc m)" 0]
  note t2 = verify_model_determinism_examines [OF h,
      of "\<lambda>m prompt. ((Some ''same'', None), Suc m)" "0::nat"]
  have e: "take 2 ?ds = [[(''prompt'', StrV ''p1'')], [(''prompt'', StrV ''p2'')]]"
    by (simp add: numeral_2_eq_2)
  have a: "verify_model_determinism 2 (\<lambda>m prompt. ((Some (if m = (1::nat) then ''x'' else ''y''), None), Suc m)) 0
      ?ds ''prompt''
     = (Inr False, 2, [(StrV ''p1'', Some ''y''), (StrV ''p1'', Some ''x'')])"
    by (simp add: verify_model_determinism_def e Let_def)
  have b: "verify_model_determinism 2 (\<lambda>m prompt. ((Some ''same'', None), Suc m)) (0::nat)
      ?ds ''prompt''
     = (Inr True, 4, [(StrV ''p1'', Some ''same''), (StrV ''p1'', Some ''same''),
                      (StrV ''p2'', Some ''same''), (StrV ''p2'', Some ''same'')])"
    by (simp add: verify_model_determinism_def e Let_def)
  from t1 t2 a b show ?thesis by blast
qed

subsection \<open>Aggregation\<close>

lemma column_values_present:
  "\<forall>row \<in> set ds. map_of row col \<noteq> None \<Longrightarrow>
   column_values ds col = Inr (map (\<lambda>row. the (map_of row col)) ds)"
  by (induction ds) auto

lemma numbers_of_numeric:
  "\<forall>row \<in> set ds. \<exists>x. map_of row col = Some (NumV x) \<Longrightarrow>
   numbers_of (map (\<lambda>row. the (map_of row col)) ds) = Inr (map (\<lambda>row. number_at row col) ds)"
  by (induction ds) (auto simp: number_at_def)

lemma ds_mean_numeric:
  assumes "ds \<noteq> []" "\<forall>row \<in> set ds. \<exists>x. map_of row col = Some (NumV x)"
  shows "ds_mean ds col = Inr (Some (column_mean ds col))"
proof -
  have "\<forall>row \<in> set ds. map_of row col \<noteq> None" using assms(2) by auto
  then have cv: "column_values ds col = Inr (map (\<lambda>row. the (map_of row col)) ds)"
    by (rule column_values_present)
  show ?thesis
    using assms(1) by (simp add: ds_mean_def cv numbers_of_numeric [OF assms(2)] column_mean_def)
qed

lemma dataset_scores_of_mean:
  assumes "ds \<noteq> []" "\<forall>row \<in> set ds. \<forall>n \<in> set names. \<exists>x. map_of row n = Some (NumV x)"
  shows "dataset_scores_of ds names MEAN = Inr (map (\<lambda>n. \<lparr>name = n, val = column_mean ds n\<rparr>) names)"
  using assms(2)
proof (induction names)
  case Nil
  then show ?case by simp
next
  case (Cons n names)
  then have "\<forall>row \<in> set ds. \<exists>x. map_of row n = Some (NumV x)" by simp
  then have m: "ds_mean ds n = Inr (Some (column_mean ds n))"
    using assms(1) ds_mean_numeric by blast
  from Cons have "dataset_scores_of ds names MEAN
      = Inr (map (\<lambda>n. \<lparr>name = n, val = column_mean ds n\<rparr>) names)" by simp
  then show ?case
    by (simp add: dataset_aggregation_def m)
qed

lemma group_means_rows:
  assumes "\<forall>row \<in> set ds. \<exists>x. map_of row col = Some (NumV x)"
    and "\<forall>k \<in> set ks. \<exists>row \<in> set ds. map_of row key = Some k"
  shows "group_means ds key col ks
           = Inr (map (\<lambda>k. [(key, k), (mean_column col,
                      NumV (column_mean (filter (\<lambda>row. map_of row key = Some k) ds) col))]) ks)"
  using assms(2)
proof (induction ks)
  case Nil
  then show ?case by simp
next
  case (Cons k ks)
  let ?g = "filter (\<lambda>row. map_of row key = Some k) ds"
  from Cons.prems obtain row where "row \<in> set ds" "map_of row key = Some k" by auto
  then have "row \<in> set ?g" by simp
  then have "0 < length ?g" by (rule length_pos_if_in_set)
  then have ne: "?g \<noteq> []" by simp
  have "\<forall>row \<in> set ?g. \<exists>x. map_of row col = Some (NumV x)" using assms(1) by simp
  then have m: "ds_mean ?g col = Inr (Some (column_mean ?g col))"
    using ne ds_mean_numeric by blast
  from Cons have "group_means ds key col ks
           = Inr (map (\<lambda>k. [(key, k), (mean_column col,
                      NumV (column_mean (filter (\<lambda>row. map_of row key = Some k) ds) col))]) ks)"
    by simp
  then show ?case by (simp add: m)
qed

lemma map_of_keyed: "k \<in> set cats \<Longrightarrow> map_of (map (\<lambda>c. (c, f c)) cats) k = Some (f k)"
  by (induction cats) auto

lemma update_keyed:
  "k \<in> set cats \<Longrightarrow> distinct cats \<Longrightarrow>
   AList.update k v (map (\<lambda>c. (c, f c)) cats) = map (\<lambda>c. (c, (f(k := v)) c)) cats"
  by (induction cats) auto


lemma mean_column_not_category: "mean_column col \<noteq> CATEGORY"
  by (simp add: mean_column_def CATEGORY_def)

lemma append_category_rows_groups:
  assumes "distinct cats" "set ks \<subseteq> set cats" "distinct ks"
  shows "append_category_rows col (map (group_row ds col) ks) (map (\<lambda>c. (c, f c)) cats)
           = Inr (map (\<lambda>c. (c, if c \<in> set ks
                                  then (f c)\<lparr>cat_scores := cat_scores (f c) @ [group_score ds col c]\<rparr>
                                  else f c)) cats)"
  using assms(2,3)
proof (induction ks arbitrary: f)
  case Nil
  then show ?case by simp
next
  case (Cons k ks)
  let ?v = "(f k)\<lparr>cat_scores := cat_scores (f k) @ [group_score ds col k]\<rparr>"
  have k: "k \<in> set cats" using Cons.prems(1) by simp
  have nk: "k \<notin> set ks" using Cons.prems(2) by simp
  have sub: "set ks \<subseteq> set cats" using Cons.prems(1) by simp
  have dk: "distinct ks" using Cons.prems(2) by simp
  have step: "append_category_rows col (map (group_row ds col) (k # ks)) (map (\<lambda>c. (c, f c)) cats)
      = append_category_rows col (map (group_row ds col) ks) (map (\<lambda>c. (c, (f(k := ?v)) c)) cats)"
    using mean_column_not_category [of col]
    by (simp add: group_row_def group_score_def map_of_keyed [OF k] update_keyed [OF k assms(1)])
  have "append_category_rows col (map (group_row ds col) ks) (map (\<lambda>c. (c, (f(k := ?v)) c)) cats)
      = Inr (map (\<lambda>c. (c, if c \<in> set ks
                  then ((f(k := ?v)) c)\<lparr>cat_scores := cat_scores ((f(k := ?v)) c) @ [group_score ds col c]\<rparr>
                  else (f(k := ?v)) c)) cats)"
    by (rule Cons.IH [OF sub dk])
  also have "\<dots> = Inr (map (\<lambda>c. (c, if c \<in> set (k # ks)
                                  then (f c)\<lparr>cat_scores := cat_scores (f c) @ [group_score ds col c]\<rparr>
                                  else f c)) cats)"
    using nk by auto
  finally show ?case using step by simp
qed


lemma ds_unique_categories:
  assumes "\<forall>row \<in> set ds. map_of row CATEGORY \<noteq> None"
  shows "ds_unique ds CATEGORY = Inr (remdups (map (\<lambda>row. the (map_of row CATEGORY)) ds))"
  by (simp add: ds_unique_def column_values_present [OF assms])

lemma categories_set:
  assumes "\<forall>row \<in> set ds. map_of row CATEGORY \<noteq> None"
  shows "set (remdups (map (\<lambda>row. the (map_of row CATEGORY)) ds))
           = {c. \<exists>row \<in> set ds. map_of row CATEGORY = Some c}"
  using assms by force

lemma category_wise_aggregation_groups:
  assumes "\<forall>row \<in> set ds. map_of row CATEGORY \<noteq> None"
    and "\<forall>row \<in> set ds. \<exists>x. map_of row col = Some (NumV x)"
  shows "category_wise_aggregation ds col MEAN
           = Inr (map (group_row ds col) (remdups (map (\<lambda>row. the (map_of row CATEGORY)) ds)))"
proof -
  let ?cats = "remdups (map (\<lambda>row. the (map_of row CATEGORY)) ds)"
  have "\<forall>k \<in> set ?cats. \<exists>row \<in> set ds. map_of row CATEGORY = Some k"
    unfolding categories_set [OF assms(1)] by simp
  then have "group_means ds CATEGORY col ?cats
           = Inr (map (\<lambda>k. [(CATEGORY, k), (mean_column col,
                      NumV (column_mean (filter (\<lambda>row. map_of row CATEGORY = Some k) ds) col))]) ?cats)"
    by (rule group_means_rows [OF assms(2)])
  then show ?thesis
    by (simp add: category_wise_aggregation_def ds_groupby_mean_def
        ds_unique_categories [OF assms(1)] group_row_def [abs_def])
qed

lemma append_category_scores_columns:
  assumes "\<forall>row \<in> set ds. map_of row CATEGORY \<noteq> None"
    and "\<forall>row \<in> set ds. \<forall>n \<in> set names. \<exists>x. map_of row n = Some (NumV x)"
    and "cats = remdups (map (\<lambda>row. the (map_of row CATEGORY)) ds)"
  shows "append_category_scores ds names MEAN (map (\<lambda>c. (c, \<lparr>cat_name = c, cat_scores = S c\<rparr>)) cats)
           = Inr (map (\<lambda>c. (c, \<lparr>cat_name = c,
                                  cat_scores = S c @ map (\<lambda>n. group_score ds n c) names\<rparr>)) cats)"
  using assms(2)
proof (induction names arbitrary: S)
  case Nil
  then show ?case by simp
next
  case (Cons n names)
  have d: "distinct cats" using assms(3) by simp
  from Cons.prems have "\<forall>row \<in> set ds. \<exists>x. map_of row n = Some (NumV x)" by simp
  then have agg: "category_wise_aggregation ds n MEAN = Inr (map (group_row ds n) cats)"
    unfolding assms(3) by (rule category_wise_aggregation_groups [OF assms(1)])
  have inner: "append_category_rows n (map (group_row ds n) cats)
                 (map (\<lambda>c. (c, \<lparr>cat_name = c, cat_scores = S c\<rparr>)) cats)
      = Inr (map (\<lambda>c. (c, \<lparr>cat_name = c, cat_scores = (S c @ [group_score ds n c])\<rparr>)) cats)"
    using append_category_rows_groups [OF d subset_refl d, of n ds
        "\<lambda>c. \<lparr>cat_name = c, cat_scores = S c\<rparr>"]
    by simp
  from Cons.prems have "\<forall>row \<in> set ds. \<forall>n \<in> set names. \<exists>x. map_of row n = Some (NumV x)"
    by simp
  then have "append_category_scores ds names MEAN
       (map (\<lambda>c. (c, \<lparr>cat_name = c, cat_scores = (S c @ [group_score ds n c])\<rparr>)) cats)
     = Inr (map (\<lambda>c. (c, \<lparr>cat_name = c,
                 cat_scores = (S c @ [group_score ds n c]) @ map (\<lambda>n. group_score ds n c) names\<rparr>)) cats)"
    by (rule Cons.IH)
  then show ?case
    by (simp add: agg inner)
qed

text \<open>
  C2 (amended). For a dataset with at least one row whose score columns hold a number in every row
  (and, when the dataset has the category column, a category in every row), the mean
  method returns: as dataset-level scores, one \<open>EvalScore\<close> per score column, in
  the order of \<open>score_column_names\<close>, valued at the arithmetic mean of the column
  over all rows; no category scores when there is no category column; and otherwise one
  \<open>CategoryScore\<close> per distinct category value, each holding one
  \<open>EvalScore\<close> per score column, in the same order, valued at the mean of the
  column over the rows of that category.
\<close>

theorem aggregate_evaluation_scores_mean:
  assumes "ds \<noteq> []"
    and "\<forall>row \<in> set ds. \<forall>n \<in> set names. \<exists>x. map_of row n = Some (NumV x)"
    and "CATEGORY \<in> set (ds_columns ds) \<longrightarrow> (\<forall>row \<in> set ds. map_of row CATEGORY \<noteq> None)"
  shows "(CATEGORY \<notin> set (ds_columns ds) \<longrightarrow>
            aggregate_evaluation_scores ds names MEAN
              = Inr (map (\<lambda>n. \<lparr>name = n, val = column_mean ds n\<rparr>) names, None))
    \<and> (CATEGORY \<in> set (ds_columns ds) \<longrightarrow>
          (\<exists>cats. distinct cats
             \<and> set cats = {c. \<exists>row \<in> set ds. map_of row CATEGORY = Some c}
             \<and> aggregate_evaluation_scores ds names MEAN
                 = Inr (map (\<lambda>n. \<lparr>name = n, val = column_mean ds n\<rparr>) names,
                        Some (map (\<lambda>c. \<lparr>cat_name = c,
                                 cat_scores = map (\<lambda>n. \<lparr>name = n,
                                     val = column_mean (filter (\<lambda>row. map_of row CATEGORY = Some c) ds) n\<rparr>)
                                   names\<rparr>) cats))))"
proof (intro conjI impI)
  note scores = dataset_scores_of_mean [OF assms(1,2)]
  {
    assume "CATEGORY \<notin> set (ds_columns ds)"
    then show "aggregate_evaluation_scores ds names MEAN
              = Inr (map (\<lambda>n. \<lparr>name = n, val = column_mean ds n\<rparr>) names, None)"
      by (simp add: aggregate_evaluation_scores_def scores)
  next
    assume c: "CATEGORY \<in> set (ds_columns ds)"
    let ?cats = "remdups (map (\<lambda>row. the (map_of row CATEGORY)) ds)"
    have cp: "\<forall>row \<in> set ds. map_of row CATEGORY \<noteq> None" using assms(3) c by simp
    have u: "ds_unique ds CATEGORY = Inr ?cats" by (rule ds_unique_categories [OF cp])
    have od: "OrderedDict (map (\<lambda>c. (c, \<lparr>cat_name = c, cat_scores = []\<rparr>)) ?cats)
                = map (\<lambda>c. (c, \<lparr>cat_name = c, cat_scores = []\<rparr>)) ?cats"
      by (rule OrderedDict_distinct) (simp add: comp_def)
    have loop: "append_category_scores ds names MEAN
                  (map (\<lambda>c. (c, \<lparr>cat_name = c, cat_scores = []\<rparr>)) ?cats)
        = Inr (map (\<lambda>c. (c, \<lparr>cat_name = c,
                                  cat_scores = [] @ map (\<lambda>n. group_score ds n c) names\<rparr>)) ?cats)"
      by (rule append_category_scores_columns [OF cp assms(2) refl])
    have ne: "?cats \<noteq> []" using assms(1) by (cases ds) auto
    have "aggregate_evaluation_scores ds names MEAN
                 = Inr (map (\<lambda>n. \<lparr>name = n, val = column_mean ds n\<rparr>) names,
                        Some (map (\<lambda>c. \<lparr>cat_name = c,
                                 cat_scores = map (\<lambda>n. \<lparr>name = n,
                                     val = column_mean (filter (\<lambda>row. map_of row CATEGORY = Some c) ds) n\<rparr>)
                                   names\<rparr>) ?cats))"
      using c ne
      by (simp add: aggregate_evaluation_scores_def scores u od loop comp_def group_score_def)
    moreover have "distinct ?cats" by simp
    moreover have "set ?cats = {c. \<exists>row \<in> set ds. map_of row CATEGORY = Some c}"
      by (rule categories_set [OF cp])
    ultimately show "\<exists>cats. distinct cats
             \<and> set cats = {c. \<exists>row \<in> set ds. map_of row CATEGORY = Some c}
             \<and> aggregate_evaluation_scores ds names MEAN
                 = Inr (map (\<lambda>n. \<lparr>name = n, val = column_mean ds n\<rparr>) names,
                        Some (map (\<lambda>c. \<lparr>cat_name = c,
                                 cat_scores = map (\<lambda>n. \<lparr>name = n,
                                     val = column_mean (filter (\<lambda>row. map_of row CATEGORY = Some c) ds) n\<rparr>)
                                   names\<rparr>) cats))"
      by (intro exI [of _ ?cats] conjI)
  }
qed


theorem aggregate_evaluation_scores_mean_witness:
  "aggregate_evaluation_scores
     [[(''category'', StrV ''a''), (''s'', NumV 1), (''t'', NumV 10)],
      [(''category'', StrV ''b''), (''s'', NumV 2), (''t'', NumV 20)],
      [(''category'', StrV ''a''), (''s'', NumV 3), (''t'', NumV 30)]]
     [''s'', ''t''] MEAN
   = Inr ([\<lparr>name = ''s'', val = 2\<rparr>, \<lparr>name = ''t'', val = 20\<rparr>],
          Some [\<lparr>cat_name = StrV ''b'',
                  cat_scores = [\<lparr>name = ''s'', val = 2\<rparr>, \<lparr>name = ''t'', val = 20\<rparr>]\<rparr>,
                \<lparr>cat_name = StrV ''a'',
                  cat_scores = [\<lparr>name = ''s'', val = 2\<rparr>, \<lparr>name = ''t'', val = 20\<rparr>]\<rparr>])
   \<and> aggregate_evaluation_scores
     [[(''s'', NumV 1), (''t'', NumV 10)], [(''s'', NumV 2), (''t'', NumV 20)]]
     [''t'', ''s''] MEAN
   = Inr ([\<lparr>name = ''t'', val = 15\<rparr>, \<lparr>name = ''s'', val = 3 / 2\<rparr>], None)"
proof -
  let ?ds = "[[(''category'', StrV ''a''), (''s'', NumV 1), (''t'', NumV 10)],
      [(''category'', StrV ''b''), (''s'', NumV 2), (''t'', NumV 20)],
      [(''category'', StrV ''a''), (''s'', NumV 3), (''t'', NumV 30)]]"
  let ?plain = "[[(''s'', NumV 1), (''t'', NumV 10)], [(''s'', NumV 2), (''t'', NumV 20)]]"
  have ne: "?ds \<noteq> []" by simp
  have num: "\<forall>row \<in> set ?ds. \<forall>n \<in> set [''s'', ''t'']. \<exists>x. map_of row n = Some (NumV x)"
    by simp
  have cat: "CATEGORY \<in> set (ds_columns ?ds) \<longrightarrow> (\<forall>row \<in> set ?ds. map_of row CATEGORY \<noteq> None)"
    by (simp add: CATEGORY_def)
  have c: "CATEGORY \<in> set (ds_columns ?ds)"
    by (simp add: CATEGORY_def ds_columns_def)
  have ne': "?plain \<noteq> []" by simp
  have num': "\<forall>row \<in> set ?plain. \<forall>n \<in> set [''t'', ''s'']. \<exists>x. map_of row n = Some (NumV x)"
    by simp
  have c': "CATEGORY \<notin> set (ds_columns ?plain)"
    by (simp add: CATEGORY_def ds_columns_def)
  then have cat': "CATEGORY \<in> set (ds_columns ?plain) \<longrightarrow> (\<forall>row \<in> set ?plain. map_of row CATEGORY \<noteq> None)"
    by simp
  note t2 = aggregate_evaluation_scores_mean [OF ne' num' cat']
  have a2: "aggregate_evaluation_scores ?plain [''t'', ''s''] MEAN
      = Inr ([\<lparr>name = ''t'', val = 15\<rparr>, \<lparr>name = ''s'', val = 3 / 2\<rparr>], None)"
    using conjunct1 [OF t2] c' by (simp add: column_mean_def number_at_def)
  have a1: "aggregate_evaluation_scores ?ds [''s'', ''t''] MEAN
   = Inr ([\<lparr>name = ''s'', val = 2\<rparr>, \<lparr>name = ''t'', val = 20\<rparr>],
          Some [\<lparr>cat_name = StrV ''b'',
                  cat_scores = [\<lparr>name = ''s'', val = 2\<rparr>, \<lparr>name = ''t'', val = 20\<rparr>]\<rparr>,
                \<lparr>cat_name = StrV ''a'',
                  cat_scores = [\<lparr>name = ''s'', val = 2\<rparr>, \<lparr>name = ''t'', val = 20\<rparr>]\<rparr>])"
    by (simp add: aggregate_evaluation_scores_def dataset_aggregation_def ds_mean_def
        ds_columns_def ds_unique_def OrderedDict_def category_wise_aggregation_def
        ds_groupby_mean_def mean_column_def CATEGORY_def MEAN_def)
  show ?thesis using a1 a2 by simp
qed

text \<open>
  On a dataset with no rows the engine's mean of a score column is \<open>None\<close>, and
  the assertion of \<open>dataset_aggregation\<close> that the aggregate is a float fails: with
  at least one score column nothing is returned.
\<close>

lemma aggregate_evaluation_scores_no_rows:
  "aggregate_evaluation_scores [] (n # names) MEAN = Inl AssertionError"
  by (simp add: aggregate_evaluation_scores_def dataset_aggregation_def ds_mean_def)

text \<open>
  The claim as stated, for every dataset, fails at the dataset with no rows and the score
  column \<open>rouge\<close>.
\<close>

theorem aggregate_evaluation_scores_empty_counterexample:
  "aggregate_evaluation_scores [] [''rouge''] MEAN = Inl AssertionError"
  by (simp add: aggregate_evaluation_scores_def dataset_aggregation_def ds_mean_def)

end
